theory Spec2Isabelle
  imports Main "HOL-Library.Sublist" "HOL-Library.Multiset"
begin

section \<open>Go values shared by the whole driver\<close>

text \<open>
  A Go pointer is an address into a typed heap, or nil. A call either returns or
  panics (a nil dereference is the only panic the mock driver can raise on its own).
  A Go \<open>error\<close> result is \<open>None\<close> for nil.
\<close>

type_synonym ptr = "nat option"

datatype 'a outcome = Panics | Returns 'a

datatype error =
    MkdirError string
  | RemoveError "string list"
  | InvalidArgument string
  | CallbackError string
  | NotFound string
  | InvalidTransition

type_synonym go_error = "error option"

datatype go_context = Background | Derived nat

section \<open>Path handling of the Go library\<close>

text \<open>
  \<open>strings.Join\<close>, \<open>filepath.Clean\<close> and \<open>filepath.Join\<close> for a Unix
  separator. \<open>Clean\<close> works on the elements between separators: empty elements and
  \<open>.\<close> vanish, \<open>..\<close> removes the element before it, is dropped at the root and is
  kept at the front of a relative path.
\<close>

fun split_sep :: "string \<Rightarrow> string list" where
  "split_sep [] = [[]]"
| "split_sep (c # cs) =
     (if c = CHR ''/'' then [] # split_sep cs
      else (case split_sep cs of [] \<Rightarrow> [[c]] | w # ws \<Rightarrow> (c # w) # ws))"

fun strings_Join :: "string list \<Rightarrow> string \<Rightarrow> string" where
  "strings_Join [] sep = []"
| "strings_Join [e] sep = e"
| "strings_Join (e # es) sep = e @ sep @ strings_Join es sep"

definition clean_step :: "bool \<Rightarrow> string list \<Rightarrow> string \<Rightarrow> string list" where
  "clean_step rooted out c =
     (if c = [] \<or> c = ''.'' then out
      else if c = ''..'' then
        (if out \<noteq> [] \<and> last out \<noteq> ''..'' then butlast out
         else if rooted then out
         else out @ [''..''])
      else out @ [c])"

definition Clean :: "string \<Rightarrow> string" where
  "Clean p =
     (if p = [] then ''.''
      else
        let rooted = (hd p = CHR ''/'');
            out = foldl (clean_step rooted) [] (split_sep p);
            s = (if rooted then ''/'' else []) @ strings_Join out ''/''
        in if s = [] then ''.'' else s)"

definition Join :: "string list \<Rightarrow> string" where
  "Join elem =
     (case dropWhile (\<lambda>e. e = []) elem of
        [] \<Rightarrow> []
      | es \<Rightarrow> Clean (strings_Join es ''/''))"

section \<open>The mock driver and its options\<close>

record MockOptions =
  NumWorkers :: int
  NumShards :: int
  EtcdPrefix :: string
  PipelineInfo :: ptr
  HashtreePath :: string

text \<open>
  Modelled from the spec: \<open>cache.NewWorkerCache\<close> is not part of the sources at hand;
  a chunk cache occupies the dedicated root directory passed in at construction, and the
  constructor always yields a cache (never nil).
\<close>

datatype WorkerCache = WorkerCache (cache_root: string)

definition NewWorkerCache :: "string \<Rightarrow> WorkerCache" where
  "NewWorkerCache hashtreeStorage = WorkerCache hashtreeStorage"

record MockDriver =
  ctx :: go_context
  options :: ptr
  etcdClient :: ptr
  chunkCache :: "WorkerCache option"
  chunkStatsCache :: "WorkerCache option"

text \<open>
  The heap holds the \<open>MockOptions\<close> and \<open>MockDriver\<close> objects; an address is an
  index, and allocation appends, so a new object never has the address of an old one.
\<close>

record heap =
  opts_mem :: "MockOptions list"
  drvs_mem :: "MockDriver list"

definition load_opts :: "heap \<Rightarrow> ptr \<Rightarrow> MockOptions option" where
  "load_opts h p =
     (case p of
        None \<Rightarrow> None
      | Some a \<Rightarrow> if a < length (opts_mem h) then Some (opts_mem h ! a) else None)"

definition load_drv :: "heap \<Rightarrow> ptr \<Rightarrow> MockDriver option" where
  "load_drv h p =
     (case p of
        None \<Rightarrow> None
      | Some a \<Rightarrow> if a < length (drvs_mem h) then Some (drvs_mem h ! a) else None)"

text \<open>\<open>md.options\<close> followed through both pointers.\<close>

definition md_options :: "heap \<Rightarrow> ptr \<Rightarrow> MockOptions option" where
  "md_options h md =
     (case load_drv h md of
        None \<Rightarrow> None
      | Some d \<Rightarrow> load_opts h (options d))"

definition default_options :: "MockOptions \<Rightarrow> MockOptions" where
  "default_options u =
     (let o1 = (if NumWorkers u = 0 then u\<lparr>NumWorkers := 1\<rparr> else u);
          o2 = (if NumShards o1 = 0 then o1\<lparr>NumShards := 1\<rparr> else o1)
      in o2)"

definition NewMockDriver :: "ptr \<Rightarrow> ptr \<Rightarrow> heap \<Rightarrow> (ptr \<times> heap) outcome" where
  "NewMockDriver etcd userOptions h =
     (case load_opts h userOptions of
        None \<Rightarrow> Panics
      | Some u \<Rightarrow>
          let opts = default_options u;
              optsAddr = length (opts_mem h);
              md = \<lparr>ctx = Background, options = Some optsAddr, etcdClient = etcd,
                    chunkCache = None, chunkStatsCache = None\<rparr>;
              md' = (if HashtreePath opts \<noteq> []
                     then md\<lparr>chunkCache := Some (NewWorkerCache (Join [HashtreePath opts, ''chunk''])),
                             chunkStatsCache := Some (NewWorkerCache (Join [HashtreePath opts, ''chunkStats'']))\<rparr>
                     else md)
          in Returns (Some (length (drvs_mem h)),
                      h\<lparr>opts_mem := opts_mem h @ [opts], drvs_mem := drvs_mem h @ [md']\<rparr>))"

definition WithCtx :: "heap \<Rightarrow> ptr \<Rightarrow> go_context \<Rightarrow> (ptr \<times> heap) outcome" where
  "WithCtx h md c =
     (case load_drv h md of
        None \<Rightarrow> Panics
      | Some d \<Rightarrow>
          Returns (Some (length (drvs_mem h)),
                   h\<lparr>drvs_mem := drvs_mem h @ [d\<lparr>ctx := c\<rparr>]\<rparr>))"

definition ChunkCache :: "heap \<Rightarrow> ptr \<Rightarrow> WorkerCache option outcome" where
  "ChunkCache h md =
     (case load_drv h md of None \<Rightarrow> Panics | Some d \<Rightarrow> Returns (chunkCache d))"

definition ChunkStatsCache :: "heap \<Rightarrow> ptr \<Rightarrow> WorkerCache option outcome" where
  "ChunkStatsCache h md =
     (case load_drv h md of None \<Rightarrow> Panics | Some d \<Rightarrow> Returns (chunkStatsCache d))"

definition InputDir :: "heap \<Rightarrow> ptr \<Rightarrow> string" where
  "InputDir h md = ''/pfs''"

definition PachClient :: "heap \<Rightarrow> ptr \<Rightarrow> ptr" where
  "PachClient h md = None"

definition PipelineInfo_of :: "heap \<Rightarrow> ptr \<Rightarrow> ptr outcome" where
  "PipelineInfo_of h md =
     (case md_options h md of None \<Rightarrow> Panics | Some opts \<Rightarrow> Returns (PipelineInfo opts))"

definition GetExpectedNumWorkers :: "heap \<Rightarrow> ptr \<Rightarrow> (int \<times> go_error) outcome" where
  "GetExpectedNumWorkers h md =
     (case md_options h md of None \<Rightarrow> Panics | Some opts \<Rightarrow> Returns (NumWorkers opts, None))"

definition NumShards_of :: "heap \<Rightarrow> ptr \<Rightarrow> int outcome" where
  "NumShards_of h md =
     (case md_options h md of None \<Rightarrow> Panics | Some opts \<Rightarrow> Returns (NumShards opts))"

section \<open>The local filesystem\<close>

text \<open>
  An entry of the filesystem is found at a location: the names on the way down from the
  root directory, which always exists. The process has a working directory. A path is
  resolved from the root when it is absolute and from the working directory otherwise:
  an empty element and \<open>.\<close> are skipped, \<open>..\<close> goes up one directory and stays at
  the root, a name goes down. This is what the kernel does for a path without symbolic
  links whose \<open>..\<close> elements come first, as in every path that \<open>filepath.Join\<close>
  returns. Two oracles stand for what the code cannot see: \<open>mkdir_denied\<close> says where
  \<open>os.Mkdir\<close> is refused, and \<open>remove_denied\<close> lists the entries that cannot be
  unlinked, in the order in which a removal meets them. \<open>uuid_next\<close> counts the
  identifiers the uuid generator has handed out.
\<close>

type_synonym location = "string list"

datatype entry = Dir | File

record world =
  fs :: "location \<Rightarrow> entry option"
  cwd :: location
  mkdir_denied :: "location \<Rightarrow> bool"
  remove_denied :: "location list"
  uuid_next :: nat

definition stat :: "world \<Rightarrow> location \<Rightarrow> entry option" where
  "stat w l = (if l = [] then Some Dir else fs w l)"

definition IsAbs :: "string \<Rightarrow> bool" where
  "IsAbs path = (path \<noteq> [] \<and> hd path = CHR ''/'')"

definition walk :: "location \<Rightarrow> string \<Rightarrow> location" where
  "walk l c = (if c = [] \<or> c = ''.'' then l else if c = ''..'' then butlast l else l @ [c])"

definition resolve :: "world \<Rightarrow> string \<Rightarrow> location" where
  "resolve w path = foldl walk (if IsAbs path then [] else cwd w) (split_sep path)"

text \<open>\<open>os.Stat\<close> and \<open>os.Lstat\<close>: what is at the path, if anything; no path is empty.\<close>

definition os_Stat :: "string \<Rightarrow> world \<Rightarrow> entry option" where
  "os_Stat path w = (if path = [] then None else stat w (resolve w path))"

text \<open>
  \<open>os.Mkdir\<close> fails when something is at the path already, when there is no directory to
  make it in, and when it is refused.
\<close>

definition os_Mkdir :: "string \<Rightarrow> world \<Rightarrow> go_error \<times> world" where
  "os_Mkdir path w =
     (if path = [] \<or> stat w (resolve w path) \<noteq> None
         \<or> stat w (butlast (resolve w path)) \<noteq> Some Dir
         \<or> mkdir_denied w (resolve w path)
      then (Some (MkdirError path), w)
      else (None, w\<lparr>fs := (fs w)(resolve w path \<mapsto> Dir)\<rparr>))"

text \<open>
  \<open>path[:j]\<close> of \<open>os.MkdirAll\<close>: the path without its last element and without the
  separators that trail it.
\<close>

definition parent_prefix :: "string \<Rightarrow> string" where
  "parent_prefix path =
     rev (dropWhile (\<lambda>c. c \<noteq> CHR ''/'') (dropWhile (\<lambda>c. c = CHR ''/'') (rev path)))"

function MkdirAll :: "string \<Rightarrow> world \<Rightarrow> go_error \<times> world" where
  "MkdirAll path w =
     (case os_Stat path w of
        Some Dir \<Rightarrow> (None, w)
      | Some File \<Rightarrow> (Some (MkdirError path), w)
      | None \<Rightarrow>
          (case (if 1 < length (parent_prefix path)
                 then MkdirAll (take (length (parent_prefix path) - 1) path) w
                 else (None, w)) of
             (Some e, w1) \<Rightarrow> (Some e, w1)
           | (None, w1) \<Rightarrow>
               (case os_Mkdir path w1 of
                  (None, w2) \<Rightarrow> (None, w2)
                | (Some e, w2) \<Rightarrow>
                    if os_Stat path w2 = Some Dir then (None, w2) else (Some e, w2))))"
  by pat_completeness auto
termination
proof (relation "measure (\<lambda>(path, w). length path)")
  show "wf (measure (\<lambda>(path, w). length path))"
    by simp
next
  fix path :: string and w :: world
  assume "1 < length (parent_prefix path)"
  moreover have "length (parent_prefix path) \<le> length path"
  proof -
    have "length (parent_prefix path)
        \<le> length (dropWhile (\<lambda>c. c = CHR ''/'') (rev path))"
      unfolding parent_prefix_def length_rev by (rule length_dropWhile_le)
    also have "\<dots> \<le> length (rev path)"
      by (rule length_dropWhile_le)
    finally show ?thesis by simp
  qed
  ultimately show "((take (length (parent_prefix path) - 1) path, w), (path, w))
      \<in> measure (\<lambda>(path, w). length path)"
    by simp
qed

declare MkdirAll.simps [simp del]

text \<open>
  \<open>os.RemoveAll\<close> does nothing for the empty path, refuses a path whose last element is
  \<open>.\<close>, and otherwise removes the entry at the path and everything below it that it
  can: an entry that cannot be unlinked stays, and so does every directory above it,
  which is not empty. The error is the first one met, which is that of an entry that
  cannot be unlinked and has no such entry below it; removing what is not there is no
  error.
\<close>

definition endsWithDot :: "string \<Rightarrow> bool" where
  "endsWithDot path = (last (split_sep path) = ''.'')"

definition blocked_entries :: "location \<Rightarrow> world \<Rightarrow> location list" where
  "blocked_entries a w = filter (\<lambda>r. prefix a r \<and> fs w r \<noteq> None) (remove_denied w)"

definition RemoveAll :: "string \<Rightarrow> world \<Rightarrow> go_error \<times> world" where
  "RemoveAll path w =
     (if path = [] then (None, w)
      else if endsWithDot path then (Some (InvalidArgument path), w)
      else
        let a = resolve w path;
            b = blocked_entries a w
        in ((case find (\<lambda>r. \<not> list_ex (strict_prefix r) b) b of
               None \<Rightarrow> None
             | Some r \<Rightarrow> Some (RemoveError r)),
            w\<lparr>fs := (\<lambda>q. if prefix a q \<and> \<not> list_ex (prefix q) b then None else fs w q)\<rparr>))"

section \<open>Per-run merge caches\<close>

text \<open>
  Modelled from the spec: \<open>hashtree.NewMergeCache\<close> is not part of the sources at hand;
  the handle it returns stands for the directory it was given.
\<close>

datatype MergeCache = MergeCache (cache_dir: string)

definition NewMergeCache :: "string \<Rightarrow> MergeCache" where
  "NewMergeCache root = MergeCache root"

text \<open>
  A deferred \<open>os.RemoveAll\<close>: it runs when the rest of the body returns or panics, and its
  error becomes the result only when no error is set yet.
\<close>

definition defer_RemoveAll :: "string \<Rightarrow> go_error outcome \<times> world \<Rightarrow> go_error outcome \<times> world" where
  "defer_RemoveAll path r =
     (case r of
        (out, w) \<Rightarrow>
          (case RemoveAll path w of
             (err, w') \<Rightarrow>
               (case out of
                  Panics \<Rightarrow> (Panics, w')
                | Returns retErr \<Rightarrow> (Returns (if retErr = None then err else retErr), w'))))"

text \<open>
  \<open>uuid.NewWithoutDashes\<close> is not part of the sources at hand: the identifiers it yields,
  one after the other, are the parameter \<open>uuid\<close>, and every call takes the next one. The
  callback is any function of the two caches and the world: it may write and remove
  entries and change the working directory, and it returns an error or panics.
\<close>

definition WithDatumCache ::
  "(nat \<Rightarrow> string) \<Rightarrow> heap \<Rightarrow> ptr
     \<Rightarrow> (MergeCache \<Rightarrow> MergeCache \<Rightarrow> world \<Rightarrow> go_error outcome \<times> world)
     \<Rightarrow> world \<Rightarrow> go_error outcome \<times> world" where
  "WithDatumCache uuid h md cb w =
     (let cacheID = uuid (uuid_next w);
          w0 = w\<lparr>uuid_next := Suc (uuid_next w)\<rparr>
      in (case md_options h md of
            None \<Rightarrow> (Panics, w0)
          | Some opts \<Rightarrow>
              let datumCachePath = Join [HashtreePath opts, ''datum'', cacheID];
                  statsCachePath = Join [HashtreePath opts, ''datumStats'', cacheID]
              in (case MkdirAll datumCachePath w0 of
                    (Some err, w1) \<Rightarrow> (Returns (Some err), w1)
                  | (None, w1) \<Rightarrow>
                      defer_RemoveAll datumCachePath
                        (case MkdirAll statsCachePath w1 of
                           (Some err, w2) \<Rightarrow> (Returns (Some err), w2)
                         | (None, w2) \<Rightarrow>
                             defer_RemoveAll statsCachePath
                               (cb (NewMergeCache datumCachePath)
                                   (NewMergeCache statsCachePath) w2)))))"

section \<open>Datum processing in the mock\<close>

text \<open>
  Modelled from the spec: \<open>pps.ProcessStats\<close> is declared outside the sources at hand;
  it holds the time spent downloading, processing and uploading (nil when unset) and the
  bytes moved. \<open>&pps.ProcessStats{}\<close> is its zero value.
\<close>

record ProcessStats =
  DownloadTime :: "int option"
  ProcessTime :: "int option"
  UploadTime :: "int option"
  DownloadBytes :: nat
  UploadBytes :: nat

definition zero_ProcessStats :: ProcessStats where
  "zero_ProcessStats =
     \<lparr>DownloadTime = None, ProcessTime = None, UploadTime = None,
      DownloadBytes = 0, UploadBytes = 0\<rparr>"

text \<open>
  The callback of \<open>WithData\<close> gets a directory and a pointer to the stats; what it
  writes through the pointer is the stats it returns here.
\<close>

definition WithData ::
  "heap \<Rightarrow> ptr \<Rightarrow> 'i list \<Rightarrow> ptr \<Rightarrow> 'l \<Rightarrow> (string \<Rightarrow> ProcessStats \<Rightarrow> go_error \<times> ProcessStats)
     \<Rightarrow> ProcessStats \<times> go_error" where
  "WithData h md data inputTree logger cb =
     (case cb [] zero_ProcessStats of (err, stats) \<Rightarrow> (stats, err))"

definition WithActiveData :: "heap \<Rightarrow> ptr \<Rightarrow> 'i list \<Rightarrow> string \<Rightarrow> (unit \<Rightarrow> go_error) \<Rightarrow> go_error" where
  "WithActiveData h md inputs dir cb = cb ()"

definition RunUserCode :: "heap \<Rightarrow> ptr \<Rightarrow> 'l \<Rightarrow> string list \<Rightarrow> ProcessStats \<Rightarrow> ptr \<Rightarrow> go_error" where
  "RunUserCode h md logger environ stats timeout = None"

definition RunUserErrorHandlingCode ::
  "heap \<Rightarrow> ptr \<Rightarrow> 'l \<Rightarrow> string list \<Rightarrow> ProcessStats \<Rightarrow> ptr \<Rightarrow> go_error" where
  "RunUserErrorHandlingCode h md logger environ stats timeout = None"

definition UploadOutput ::
  "heap \<Rightarrow> ptr \<Rightarrow> string \<Rightarrow> 'l \<Rightarrow> 'i list \<Rightarrow> ProcessStats \<Rightarrow> ptr \<Rightarrow> nat list \<times> go_error" where
  "UploadOutput h md dir logger inputs stats outputTree = ([], None)"

definition MockKubeWrapper_GetExpectedNumWorkers :: "ptr \<Rightarrow> int \<times> go_error" where
  "MockKubeWrapper_GetExpectedNumWorkers parallelismSpec = (1, None)"

section \<open>Collections and the task queue handles\<close>

text \<open>
  Modelled from the spec: \<open>ppsdb.Jobs\<close>, \<open>ppsdb.Pipelines\<close>, \<open>work.NewMaster\<close> and
  \<open>work.NewWorker\<close> are constructors from outside the sources at hand. A collection is
  named (\<open>jobs\<close>, \<open>pipelines\<close>) and a task queue is keyed by the etcd prefix and the
  pipeline's work namespace, so each handle keeps the client, the prefix and the name it
  was built with. \<open>workNamespace\<close> is a parameter.
\<close>

datatype Collection = Collection (col_client: ptr) (col_prefix: string) (col_name: string)

datatype Master = Master (master_client: ptr) (master_prefix: string) (master_namespace: string)

datatype Worker = Worker (worker_client: ptr) (worker_prefix: string) (worker_namespace: string)

definition Jobs :: "heap \<Rightarrow> ptr \<Rightarrow> Collection outcome" where
  "Jobs h md =
     (case load_drv h md of
        None \<Rightarrow> Panics
      | Some d \<Rightarrow>
          (case load_opts h (options d) of
             None \<Rightarrow> Panics
           | Some opts \<Rightarrow> Returns (Collection (etcdClient d) (EtcdPrefix opts) ''jobs'')))"

definition Pipelines :: "heap \<Rightarrow> ptr \<Rightarrow> Collection outcome" where
  "Pipelines h md =
     (case load_drv h md of
        None \<Rightarrow> Panics
      | Some d \<Rightarrow>
          (case load_opts h (options d) of
             None \<Rightarrow> Panics
           | Some opts \<Rightarrow> Returns (Collection (etcdClient d) (EtcdPrefix opts) ''pipelines'')))"

definition NewTaskWorker :: "(ptr \<Rightarrow> string) \<Rightarrow> heap \<Rightarrow> ptr \<Rightarrow> Worker outcome" where
  "NewTaskWorker workNamespace h md =
     (case load_drv h md of
        None \<Rightarrow> Panics
      | Some d \<Rightarrow>
          (case load_opts h (options d) of
             None \<Rightarrow> Panics
           | Some opts \<Rightarrow>
               Returns (Worker (etcdClient d) (EtcdPrefix opts) (workNamespace (PipelineInfo opts)))))"

definition NewTaskMaster :: "(ptr \<Rightarrow> string) \<Rightarrow> heap \<Rightarrow> ptr \<Rightarrow> Master outcome" where
  "NewTaskMaster workNamespace h md =
     (case load_drv h md of
        None \<Rightarrow> Panics
      | Some d \<Rightarrow>
          (case load_opts h (options d) of
             None \<Rightarrow> Panics
           | Some opts \<Rightarrow>
               Returns (Master (etcdClient d) (EtcdPrefix opts) (workNamespace (PipelineInfo opts)))))"

section \<open>The metadata store and job states\<close>

text \<open>
  Modelled from the spec: the collection package, \<open>col.NewSTM\<close> and
  \<open>ppsutil.UpdateJobState\<close> are not part of the sources at hand. The store keeps the
  records of a collection under its prefix and name; a transaction runs its callback on a
  snapshot and commits the writes only when the callback returns no error. The valid
  transitions are STARTING to RUNNING, RUNNING to SUCCESS, FAILURE or KILLED, RUNNING to
  EGRESSING when an egress step exists, and EGRESSING to SUCCESS; any other request fails
  with InvalidTransition and is not applied.
\<close>

datatype JobState =
  JOB_STARTING | JOB_RUNNING | JOB_EGRESSING | JOB_SUCCESS | JOB_FAILURE | JOB_KILLED

record EtcdJobInfo =
  Job_ID :: string
  Pipeline_Name :: string
  State :: JobState
  Reason :: string
  Egress :: bool

type_synonym etcd = "Collection \<Rightarrow> string \<Rightarrow> EtcdJobInfo option"

definition col_Get :: "Collection \<Rightarrow> string \<Rightarrow> etcd \<Rightarrow> error + EtcdJobInfo" where
  "col_Get c key stm = (case stm c key of None \<Rightarrow> Inl (NotFound key) | Some v \<Rightarrow> Inr v)"

definition col_Put :: "Collection \<Rightarrow> string \<Rightarrow> EtcdJobInfo \<Rightarrow> etcd \<Rightarrow> go_error \<times> etcd" where
  "col_Put c key v stm = (None, stm(c := (stm c)(key \<mapsto> v)))"

definition col_Delete :: "Collection \<Rightarrow> string \<Rightarrow> etcd \<Rightarrow> go_error \<times> etcd" where
  "col_Delete c key stm = (None, stm(c := (stm c)(key := None)))"

definition col_NewSTM ::
  "go_context \<Rightarrow> ptr \<Rightarrow> (etcd \<Rightarrow> go_error \<times> etcd) \<Rightarrow> etcd \<Rightarrow> go_error \<times> etcd" where
  "col_NewSTM c client cb store =
     (case cb store of
        (None, store') \<Rightarrow> (None, store')
      | (Some e, store') \<Rightarrow> (Some e, store))"

fun valid_transition :: "bool \<Rightarrow> JobState \<Rightarrow> JobState \<Rightarrow> bool" where
  "valid_transition egress JOB_STARTING JOB_RUNNING = True"
| "valid_transition egress JOB_RUNNING JOB_SUCCESS = True"
| "valid_transition egress JOB_RUNNING JOB_FAILURE = True"
| "valid_transition egress JOB_RUNNING JOB_KILLED = True"
| "valid_transition egress JOB_RUNNING JOB_EGRESSING = egress"
| "valid_transition egress JOB_EGRESSING JOB_SUCCESS = True"
| "valid_transition egress _ _ = False"

definition ppsutil_UpdateJobState ::
  "Collection \<Rightarrow> Collection \<Rightarrow> EtcdJobInfo \<Rightarrow> JobState \<Rightarrow> string \<Rightarrow> etcd \<Rightarrow> go_error \<times> etcd" where
  "ppsutil_UpdateJobState pipelines jobs jobPtr state reason stm =
     (if valid_transition (Egress jobPtr) (State jobPtr) state
      then col_Put jobs (Job_ID jobPtr) (jobPtr\<lparr>State := state, Reason := reason\<rparr>) stm
      else (Some InvalidTransition, stm))"

definition NewSTM ::
  "heap \<Rightarrow> ptr \<Rightarrow> (etcd \<Rightarrow> go_error \<times> etcd) \<Rightarrow> etcd \<Rightarrow> go_error outcome \<times> etcd" where
  "NewSTM h md cb store =
     (case load_drv h md of
        None \<Rightarrow> (Panics, store)
      | Some d \<Rightarrow>
          (case col_NewSTM (ctx d) (etcdClient d) cb store of
             (err, store') \<Rightarrow> (Returns err, store')))"

definition UpdateJobState ::
  "heap \<Rightarrow> ptr \<Rightarrow> string \<Rightarrow> JobState \<Rightarrow> string \<Rightarrow> etcd \<Rightarrow> go_error outcome \<times> etcd" where
  "UpdateJobState h md jobID state reason store =
     (case (Jobs h md, Pipelines h md) of
        (Returns jobs, Returns pipelines) \<Rightarrow>
          NewSTM h md
            (\<lambda>stm. case col_Get jobs jobID stm of
                     Inl err \<Rightarrow> (Some err, stm)
                   | Inr jobPtr \<Rightarrow> ppsutil_UpdateJobState pipelines jobs jobPtr state reason stm)
            store
      | _ \<Rightarrow> (Panics, store))"

definition DeleteJob :: "heap \<Rightarrow> ptr \<Rightarrow> etcd \<Rightarrow> EtcdJobInfo \<Rightarrow> go_error outcome \<times> etcd" where
  "DeleteJob h md stm jobPtr =
     (case Jobs h md of
        Panics \<Rightarrow> (Panics, stm)
      | Returns jobs \<Rightarrow>
          (case col_Delete jobs (Job_ID jobPtr) stm of (err, stm') \<Rightarrow> (Returns err, stm')))"

section \<open>The datum merge cache\<close>

text \<open>
  Modelled from the spec: the merge cache of package \<open>hashtree\<close> is not part of the
  sources at hand. A run's cache keeps one partial tree per ordinal, in the order the
  datums finished; \<open>Merge\<close> combines the partial trees in the order of their ordinals.
  How two trees combine is a parameter.
\<close>

record 't merge_run =
  run_id :: string
  partials :: "(nat \<times> 't) list"

definition NewForRun :: "string \<Rightarrow> 't merge_run" where
  "NewForRun rid = \<lparr>run_id = rid, partials = []\<rparr>"

definition Put :: "'t merge_run \<Rightarrow> nat \<Rightarrow> 't \<Rightarrow> 't merge_run" where
  "Put handle ordinal partialTree = handle\<lparr>partials := partials handle @ [(ordinal, partialTree)]\<rparr>"

definition Merge :: "('t \<Rightarrow> 't \<Rightarrow> 't) \<Rightarrow> 't \<Rightarrow> 't merge_run \<Rightarrow> 't" where
  "Merge combine empty_tree handle =
     foldl combine empty_tree (map snd (sort_key fst (partials handle)))"

definition put_all :: "'t merge_run \<Rightarrow> (nat \<times> 't) list \<Rightarrow> 't merge_run" where
  "put_all handle ps = foldl (\<lambda>acc (ordinal, partialTree). Put acc ordinal partialTree) handle ps"

section \<open>The task queue\<close>

text \<open>
  Modelled from the spec: package \<open>work\<close> is not part of the sources at hand. The Master
  writes one descriptor per chunk, with no lease and the completion flag unset. A Worker
  claims a chunk by writing a lease, unless the chunk is complete or another owner's lease
  is still valid; it renews its own lease; on completion it clears the lease and sets the
  completion flag, unless the chunk has gone to another owner. The Master reports the job
  complete when every chunk has its completion flag set.
\<close>

record Chunk =
  chunk_index :: nat
  datum_range :: "nat \<times> nat"
  lease_owner :: "string option"
  lease_expiry :: nat
  completion_flag :: bool

datatype task_event =
    Claim string nat nat nat
  | Renew string nat nat nat
  | Complete string nat nat

definition enqueue_chunks :: "(nat \<times> nat) list \<Rightarrow> Chunk list" where
  "enqueue_chunks ranges =
     map (\<lambda>(i, r). \<lparr>chunk_index = i, datum_range = r, lease_owner = None,
                     lease_expiry = 0, completion_flag = False\<rparr>)
         (enumerate 0 ranges)"

definition lease_held_by_other :: "Chunk \<Rightarrow> string \<Rightarrow> nat \<Rightarrow> bool" where
  "lease_held_by_other c worker now =
     (case lease_owner c of
        None \<Rightarrow> False
      | Some owner \<Rightarrow> owner \<noteq> worker \<and> now < lease_expiry c)"

fun apply_event :: "task_event \<Rightarrow> Chunk \<Rightarrow> Chunk" where
  "apply_event (Claim worker i now ttl) c =
     (if chunk_index c \<noteq> i \<or> completion_flag c \<or> lease_held_by_other c worker now then c
      else c\<lparr>lease_owner := Some worker, lease_expiry := now + ttl\<rparr>)"
| "apply_event (Renew worker i now ttl) c =
     (if chunk_index c = i \<and> lease_owner c = Some worker \<and> now < lease_expiry c
      then c\<lparr>lease_expiry := now + ttl\<rparr> else c)"
| "apply_event (Complete worker i now) c =
     (if chunk_index c = i \<and> lease_owner c = Some worker
      then c\<lparr>lease_owner := None, completion_flag := True\<rparr> else c)"

definition run_events :: "task_event list \<Rightarrow> Chunk list \<Rightarrow> Chunk list" where
  "run_events evs chunks = foldl (\<lambda>cs ev. map (apply_event ev) cs) chunks evs"

definition job_complete :: "Chunk list \<Rightarrow> bool" where
  "job_complete chunks = list_all completion_flag chunks"

fun completes :: "nat \<Rightarrow> task_event \<Rightarrow> bool" where
  "completes i (Complete worker j now) = (i = j)"
| "completes i _ = False"

section \<open>Path elements and directory prefixes\<close>

text \<open>
  A plain name is one path element: not empty, without a separator, and neither \<open>.\<close>
  nor \<open>..\<close> (a run ID from \<open>uuid.NewWithoutDashes\<close> is one). \<open>join_base root\<close> is
  what \<open>filepath.Join\<close> puts in front of the plain names that follow \<open>root\<close>: the
  cleaned root and a separator, nothing for an empty root or the current directory, and
  the separator alone for the root directory.
\<close>

definition plain_name :: "string \<Rightarrow> bool" where
  "plain_name e = (e \<noteq> [] \<and> CHR ''/'' \<notin> set e \<and> e \<noteq> ''.'' \<and> e \<noteq> ''..'')"

definition join_base :: "string \<Rightarrow> string" where
  "join_base root =
     (if root = [] then []
      else if Clean root = ''/'' then ''/''
      else if Clean root = ''.'' then []
      else Clean root @ ''/'')"

definition clean_out :: "string list \<Rightarrow> bool" where
  "clean_out out = (\<forall>e \<in> set out. e \<noteq> [] \<and> e \<noteq> ''.'' \<and> CHR ''/'' \<notin> set e)"

text \<open>
  A cleaned path is a separator, if it is rooted, and then its elements with separators
  between them. The elements are in normal form when they are \<open>..\<close> some number of
  times (none if the path is rooted) and then plain names. \<open>root_elems\<close> are the elements
  that \<open>filepath.Clean\<close> leaves of a root.
\<close>

definition render :: "bool \<Rightarrow> string list \<Rightarrow> string" where
  "render rooted out = (if rooted then ''/'' else []) @ strings_Join out ''/''"

definition root_elems :: "string \<Rightarrow> string list" where
  "root_elems root =
     (if root = [] then [] else foldl (clean_step (IsAbs root)) [] (split_sep root))"

definition normal_out :: "bool \<Rightarrow> string list \<Rightarrow> bool" where
  "normal_out rooted out =
     (\<exists>m names. out = replicate m ''..'' @ names \<and> (\<forall>n \<in> set names. plain_name n) \<and>
        (rooted \<longrightarrow> m = 0))"

text \<open>Where the directory of a root is: the walk along the elements that are left of it.\<close>

definition root_location :: "world \<Rightarrow> string \<Rightarrow> location" where
  "root_location w root = foldl walk (if IsAbs root then [] else cwd w) (root_elems root)"

section \<open>Construction of the driver\<close>

text \<open>
  C8: for a driver built by \<open>NewMockDriver\<close>, \<open>ChunkCache()\<close> and \<open>ChunkStatsCache()\<close>
  return nil exactly when the \<open>HashtreePath\<close> of the options is the empty string, and
  both return a cache when it is not empty.
\<close>

theorem chunk_caches_nil_iff_no_hashtree_path:
  assumes "NewMockDriver etcd userOptions h = Returns (md, h')"
    and "load_opts h userOptions = Some u"
  shows "(ChunkCache h' md = Returns None \<longleftrightarrow> HashtreePath u = []) \<and>
         (ChunkStatsCache h' md = Returns None \<longleftrightarrow> HashtreePath u = []) \<and>
         (HashtreePath u \<noteq> [] \<longrightarrow>
            (\<exists>c s. ChunkCache h' md = Returns (Some c) \<and>
                   ChunkStatsCache h' md = Returns (Some s)))"
  using assms
  by (auto simp: NewMockDriver_def Let_def ChunkCache_def ChunkStatsCache_def load_drv_def
      default_options_def split: if_splits)

theorem chunk_caches_nil_iff_no_hashtree_path_witness:
  "load_opts \<lparr>opts_mem = [\<lparr>NumWorkers = 0, NumShards = 4, EtcdPrefix = ''pfx'',
                 PipelineInfo = None, HashtreePath = ''r''\<rparr>], drvs_mem = []\<rparr> (Some 0)
     = Some \<lparr>NumWorkers = 0, NumShards = 4, EtcdPrefix = ''pfx'', PipelineInfo = None,
             HashtreePath = ''r''\<rparr> \<and>
   (\<exists>md h'. NewMockDriver None (Some 0)
        \<lparr>opts_mem = [\<lparr>NumWorkers = 0, NumShards = 4, EtcdPrefix = ''pfx'',
                 PipelineInfo = None, HashtreePath = ''r''\<rparr>], drvs_mem = []\<rparr>
        = Returns (md, h') \<and>
      ChunkCache h' md \<noteq> Returns None \<and> ChunkStatsCache h' md \<noteq> Returns None)"
proof -
  let ?u = "\<lparr>NumWorkers = 0, NumShards = 4, EtcdPrefix = ''pfx'', PipelineInfo = None,
             HashtreePath = ''r''\<rparr>"
  let ?h = "\<lparr>opts_mem = [?u], drvs_mem = []\<rparr>"
  have l: "load_opts ?h (Some 0) = Some ?u"
    by (simp add: load_opts_def)
  obtain md h' where r: "NewMockDriver None (Some 0) ?h = Returns (md, h')"
    by (simp add: NewMockDriver_def l Let_def)
  from chunk_caches_nil_iff_no_hashtree_path [OF r l]
  have "ChunkCache h' md \<noteq> Returns None \<and> ChunkStatsCache h' md \<noteq> Returns None"
    by simp
  with l r show ?thesis by blast
qed

text \<open>
  C9: \<open>NewMockDriver\<close> leaves the caller's \<open>MockOptions\<close> as it was and keeps
  its defaults in a private copy; a zero \<open>NumWorkers\<close> or \<open>NumShards\<close> becomes 1 and any
  other value is kept, so \<open>GetExpectedNumWorkers\<close> returns a nil error with a count that
  is at least 1 whenever the option was not negative, and likewise \<open>NumShards\<close>.
\<close>

theorem new_mock_driver_defaults_on_private_copy:
  assumes "load_opts h userOptions = Some u"
  shows "\<exists>md h'. NewMockDriver etcd userOptions h = Returns (md, h') \<and>
           load_opts h' userOptions = Some u \<and>
           take (length (opts_mem h)) (opts_mem h') = opts_mem h \<and>
           (\<forall>d. load_drv h' md = Some d \<longrightarrow> options d \<noteq> userOptions) \<and>
           GetExpectedNumWorkers h' md
             = Returns (if NumWorkers u = 0 then 1 else NumWorkers u, None) \<and>
           NumShards_of h' md = Returns (if NumShards u = 0 then 1 else NumShards u) \<and>
           (0 \<le> NumWorkers u \<longrightarrow>
              (\<exists>n. GetExpectedNumWorkers h' md = Returns (n, None) \<and> 1 \<le> n)) \<and>
           (0 \<le> NumShards u \<longrightarrow> (\<exists>n. NumShards_of h' md = Returns n \<and> 1 \<le> n))"
  using assms
  by (auto simp: NewMockDriver_def Let_def load_opts_def load_drv_def md_options_def
      GetExpectedNumWorkers_def NumShards_of_def default_options_def nth_append
      split: option.splits if_splits)

theorem new_mock_driver_defaults_on_private_copy_witness:
  "load_opts \<lparr>opts_mem = [\<lparr>NumWorkers = 0, NumShards = 4, EtcdPrefix = ''pfx'',
                 PipelineInfo = None, HashtreePath = []\<rparr>], drvs_mem = []\<rparr> (Some 0)
     = Some \<lparr>NumWorkers = 0, NumShards = 4, EtcdPrefix = ''pfx'', PipelineInfo = None,
             HashtreePath = []\<rparr> \<and>
   (\<exists>md h'. NewMockDriver None (Some 0)
        \<lparr>opts_mem = [\<lparr>NumWorkers = 0, NumShards = 4, EtcdPrefix = ''pfx'',
                 PipelineInfo = None, HashtreePath = []\<rparr>], drvs_mem = []\<rparr>
        = Returns (md, h') \<and>
      load_opts h' (Some 0)
        = Some \<lparr>NumWorkers = 0, NumShards = 4, EtcdPrefix = ''pfx'', PipelineInfo = None,
                HashtreePath = []\<rparr> \<and>
      GetExpectedNumWorkers h' md = Returns (1, None) \<and>
      NumShards_of h' md = Returns 4)"
proof -
  let ?u = "\<lparr>NumWorkers = 0, NumShards = 4, EtcdPrefix = ''pfx'', PipelineInfo = None,
             HashtreePath = []\<rparr>"
  let ?h = "\<lparr>opts_mem = [?u], drvs_mem = []\<rparr>"
  have l: "load_opts ?h (Some 0) = Some ?u"
    by (simp add: load_opts_def)
  from new_mock_driver_defaults_on_private_copy [OF l, of None] l
  show ?thesis by auto
qed

text \<open>
  A negative \<open>NumWorkers\<close> is not a zero, so it is kept: the driver built from it reports
  \<open>-1\<close> workers, which is not at least 1.
\<close>

theorem new_mock_driver_negative_workers:
  "NewMockDriver None (Some 0)
     \<lparr>opts_mem = [\<lparr>NumWorkers = - 1, NumShards = 0, EtcdPrefix = [], PipelineInfo = None,
                   HashtreePath = []\<rparr>], drvs_mem = []\<rparr>
   = Returns (Some 0,
       \<lparr>opts_mem = [\<lparr>NumWorkers = - 1, NumShards = 0, EtcdPrefix = [], PipelineInfo = None,
                   HashtreePath = []\<rparr>,
                   \<lparr>NumWorkers = - 1, NumShards = 1, EtcdPrefix = [], PipelineInfo = None,
                   HashtreePath = []\<rparr>],
        drvs_mem = [\<lparr>ctx = Background, options = Some 1, etcdClient = None,
                     chunkCache = None, chunkStatsCache = None\<rparr>]\<rparr>) \<and>
   GetExpectedNumWorkers
       \<lparr>opts_mem = [\<lparr>NumWorkers = - 1, NumShards = 0, EtcdPrefix = [], PipelineInfo = None,
                   HashtreePath = []\<rparr>,
                   \<lparr>NumWorkers = - 1, NumShards = 1, EtcdPrefix = [], PipelineInfo = None,
                   HashtreePath = []\<rparr>],
        drvs_mem = [\<lparr>ctx = Background, options = Some 1, etcdClient = None,
                     chunkCache = None, chunkStatsCache = None\<rparr>]\<rparr> (Some 0)
   = Returns (- 1, None) \<and> \<not> (1 \<le> (- 1 :: int))"
  by (simp add: NewMockDriver_def Let_def load_opts_def load_drv_def md_options_def
      GetExpectedNumWorkers_def default_options_def)

text \<open>
  C10: \<open>WithCtx(c)\<close> returns a new driver that is the receiver with its context replaced
  by \<open>c\<close>: the options pointer, the etcd client and both chunk caches are the receiver's,
  and the receiver, every other driver and every options object stay as they were.
\<close>

theorem with_ctx_clones_receiver:
  assumes "load_drv h md = Some d"
  shows "\<exists>r h'. WithCtx h md c = Returns (r, h') \<and> r \<noteq> md \<and>
           load_drv h' r = Some (d\<lparr>ctx := c\<rparr>) \<and>
           options (d\<lparr>ctx := c\<rparr>) = options d \<and>
           etcdClient (d\<lparr>ctx := c\<rparr>) = etcdClient d \<and>
           chunkCache (d\<lparr>ctx := c\<rparr>) = chunkCache d \<and>
           chunkStatsCache (d\<lparr>ctx := c\<rparr>) = chunkStatsCache d \<and>
           load_drv h' md = Some d \<and>
           take (length (drvs_mem h)) (drvs_mem h') = drvs_mem h \<and>
           opts_mem h' = opts_mem h"
  using assms
  by (auto simp: WithCtx_def load_drv_def nth_append split: option.splits if_splits)

theorem with_ctx_clones_receiver_witness:
  "load_drv \<lparr>opts_mem = [], drvs_mem = [\<lparr>ctx = Background, options = Some 0,
        etcdClient = Some 7, chunkCache = None, chunkStatsCache = None\<rparr>]\<rparr> (Some 0)
     = Some \<lparr>ctx = Background, options = Some 0, etcdClient = Some 7, chunkCache = None,
             chunkStatsCache = None\<rparr> \<and>
   (\<exists>r h'. WithCtx \<lparr>opts_mem = [], drvs_mem = [\<lparr>ctx = Background, options = Some 0,
        etcdClient = Some 7, chunkCache = None, chunkStatsCache = None\<rparr>]\<rparr> (Some 0) (Derived 3)
       = Returns (r, h') \<and> r \<noteq> Some 0 \<and>
     load_drv h' r = Some \<lparr>ctx = Derived 3, options = Some 0, etcdClient = Some 7,
                            chunkCache = None, chunkStatsCache = None\<rparr> \<and>
     load_drv h' (Some 0) = Some \<lparr>ctx = Background, options = Some 0, etcdClient = Some 7,
                            chunkCache = None, chunkStatsCache = None\<rparr>)"
proof -
  let ?d = "\<lparr>ctx = Background, options = Some 0, etcdClient = Some 7, chunkCache = None,
             chunkStatsCache = None\<rparr>"
  let ?h = "\<lparr>opts_mem = [], drvs_mem = [?d]\<rparr>"
  have l: "load_drv ?h (Some 0) = Some ?d"
    by (simp add: load_drv_def)
  from with_ctx_clones_receiver [OF l, of "Derived 3"] l
  show ?thesis by auto
qed

section \<open>Datum processing\<close>

text \<open>
  C3: \<open>WithData\<close> invokes the callback with the empty string as its directory
  argument, which is not the driver's input directory, and with a fresh zero
  \<open>ProcessStats\<close>; it returns these stats as the callback left them, together with the
  callback's error.
\<close>

theorem with_data_calls_back_with_empty_dir:
  "snd (WithData h md data inputTree logger cb) = fst (cb [] zero_ProcessStats) \<and>
   fst (WithData h md data inputTree logger cb) = snd (cb [] zero_ProcessStats) \<and>
   [] \<noteq> InputDir h md"
  by (simp add: WithData_def InputDir_def split: prod.splits)

theorem with_data_calls_back_with_empty_dir_witness:
  "WithData \<lparr>opts_mem = [], drvs_mem = []\<rparr> None [()] None ()
      (\<lambda>dir stats. (Some (CallbackError dir), stats\<lparr>DownloadBytes := 5\<rparr>))
   = (zero_ProcessStats\<lparr>DownloadBytes := 5\<rparr>, Some (CallbackError []))"
  using with_data_calls_back_with_empty_dir
    [of "\<lparr>opts_mem = [], drvs_mem = []\<rparr>" None "[()]" None "()"
        "\<lambda>dir stats. (Some (CallbackError dir), stats\<lparr>DownloadBytes := 5\<rparr>)"]
  by (simp add: prod_eq_iff)

text \<open>
  A callback that fails unless its directory is the input directory \<open>/pfs\<close> fails under
  \<open>WithData\<close>, and succeeds when it is called with \<open>InputDir()\<close>.
\<close>

theorem with_data_dir_is_not_input_dir:
  "WithData \<lparr>opts_mem = [], drvs_mem = []\<rparr> None ([] :: unit list) None ()
      (\<lambda>dir stats. (if dir = ''/pfs'' then None else Some (CallbackError dir), stats))
   = (zero_ProcessStats, Some (CallbackError [])) \<and>
   (\<lambda>dir stats. (if dir = ''/pfs'' then None else Some (CallbackError dir), stats))
      (InputDir \<lparr>opts_mem = [], drvs_mem = []\<rparr> None) zero_ProcessStats
   = (None, zero_ProcessStats)"
  by (simp add: WithData_def InputDir_def)

section \<open>Job state transitions\<close>

text \<open>
  C2: \<open>UpdateJobState\<close> reads the job and applies the transition in one transaction of
  the store. A request whose transition is not among STARTING to RUNNING, RUNNING to
  SUCCESS, FAILURE or KILLED, RUNNING to EGRESSING and EGRESSING to SUCCESS fails with
  InvalidTransition and leaves the store as it was; a valid one writes the new state and
  the reason.
\<close>

theorem update_job_state_rejects_invalid_transition:
  assumes "Jobs h md = Returns jobs" and "store jobs jobID = Some j"
  shows "((State j, state) \<notin> {(JOB_STARTING, JOB_RUNNING), (JOB_RUNNING, JOB_SUCCESS),
            (JOB_RUNNING, JOB_FAILURE), (JOB_RUNNING, JOB_KILLED),
            (JOB_RUNNING, JOB_EGRESSING), (JOB_EGRESSING, JOB_SUCCESS)} \<longrightarrow>
          UpdateJobState h md jobID state reason store
            = (Returns (Some InvalidTransition), store)) \<and>
         (valid_transition (Egress j) (State j) state \<longrightarrow>
          UpdateJobState h md jobID state reason store
            = (Returns None,
               store(jobs := (store jobs)(Job_ID j \<mapsto> j\<lparr>State := state, Reason := reason\<rparr>))))"
proof -
  from assms(1) obtain d opts where d: "load_drv h md = Some d"
    and o: "load_opts h (options d) = Some opts"
    and j: "jobs = Collection (etcdClient d) (EtcdPrefix opts) ''jobs''"
    by (auto simp: Jobs_def split: option.splits)
  have p: "Pipelines h md = Returns (Collection (etcdClient d) (EtcdPrefix opts) ''pipelines'')"
    by (simp add: Pipelines_def d o)
  have inv: "\<not> valid_transition (Egress j) (State j) state"
    if "(State j, state) \<notin> {(JOB_STARTING, JOB_RUNNING), (JOB_RUNNING, JOB_SUCCESS),
            (JOB_RUNNING, JOB_FAILURE), (JOB_RUNNING, JOB_KILLED),
            (JOB_RUNNING, JOB_EGRESSING), (JOB_EGRESSING, JOB_SUCCESS)}"
    using that by (cases "State j"; cases state) simp_all
  show ?thesis
    using inv
    by (simp add: UpdateJobState_def assms p NewSTM_def d col_NewSTM_def col_Get_def
        ppsutil_UpdateJobState_def col_Put_def)
qed

theorem update_job_state_rejects_invalid_transition_witness:
  "Jobs \<lparr>opts_mem = [\<lparr>NumWorkers = 1, NumShards = 1, EtcdPrefix = ''pfx'',
              PipelineInfo = None, HashtreePath = []\<rparr>],
         drvs_mem = [\<lparr>ctx = Background, options = Some 0, etcdClient = Some 7,
              chunkCache = None, chunkStatsCache = None\<rparr>]\<rparr> (Some 0)
     = Returns (Collection (Some 7) ''pfx'' ''jobs'') \<and>
   ((\<lambda>c k. None)(Collection (Some 7) ''pfx'' ''jobs'' :=
       [''j1'' \<mapsto> \<lparr>Job_ID = ''j1'', Pipeline_Name = ''p'', State = JOB_SUCCESS,
                    Reason = [], Egress = False\<rparr>])) (Collection (Some 7) ''pfx'' ''jobs'') ''j1''
     = Some \<lparr>Job_ID = ''j1'', Pipeline_Name = ''p'', State = JOB_SUCCESS, Reason = [],
             Egress = False\<rparr> \<and>
   UpdateJobState \<lparr>opts_mem = [\<lparr>NumWorkers = 1, NumShards = 1, EtcdPrefix = ''pfx'',
              PipelineInfo = None, HashtreePath = []\<rparr>],
         drvs_mem = [\<lparr>ctx = Background, options = Some 0, etcdClient = Some 7,
              chunkCache = None, chunkStatsCache = None\<rparr>]\<rparr> (Some 0)
       ''j1'' JOB_RUNNING ''again''
       ((\<lambda>c k. None)(Collection (Some 7) ''pfx'' ''jobs'' :=
          [''j1'' \<mapsto> \<lparr>Job_ID = ''j1'', Pipeline_Name = ''p'', State = JOB_SUCCESS,
                       Reason = [], Egress = False\<rparr>]))
     = (Returns (Some InvalidTransition),
        (\<lambda>c k. None)(Collection (Some 7) ''pfx'' ''jobs'' :=
          [''j1'' \<mapsto> \<lparr>Job_ID = ''j1'', Pipeline_Name = ''p'', State = JOB_SUCCESS,
                       Reason = [], Egress = False\<rparr>]))"
proof -
  let ?h = "\<lparr>opts_mem = [\<lparr>NumWorkers = 1, NumShards = 1, EtcdPrefix = ''pfx'',
              PipelineInfo = None, HashtreePath = []\<rparr>],
         drvs_mem = [\<lparr>ctx = Background, options = Some 0, etcdClient = Some 7,
              chunkCache = None, chunkStatsCache = None\<rparr>]\<rparr>"
  let ?jobs = "Collection (Some 7) ''pfx'' ''jobs''"
  let ?j = "\<lparr>Job_ID = ''j1'', Pipeline_Name = ''p'', State = JOB_SUCCESS, Reason = [],
             Egress = False\<rparr>"
  let ?store = "(\<lambda>c k. None)(?jobs := [''j1'' \<mapsto> ?j])"
  have a: "Jobs ?h (Some 0) = Returns ?jobs"
    by (simp add: Jobs_def load_drv_def load_opts_def)
  have b: "?store ?jobs ''j1'' = Some ?j"
    by simp
  from update_job_state_rejects_invalid_transition
    [where h = "?h" and md = "Some 0" and jobs = "?jobs" and store = "?store"
       and jobID = "''j1''" and j = "?j" and state = JOB_RUNNING and reason = "''again''"] a b
  show ?thesis by simp
qed

section \<open>Merging partial trees\<close>

lemma partials_put_all: "partials (put_all handle ps) = partials handle @ ps"
  unfolding put_all_def
  by (induction ps arbitrary: handle) (auto simp: Put_def)

lemma sort_key_fst_permutation:
  fixes ps qs :: "(nat \<times> 't) list"
  assumes "mset qs = mset ps" and "distinct (map fst ps)"
  shows "sort_key fst qs = sort_key fst ps"
proof (rule sort_key_inj_key_eq)
  show "mset qs = mset (sort_key fst ps)"
    using assms(1) by simp
  show "inj_on fst (set qs)"
    using assms by (metis distinct_map mset_eq_setD)
  show "sorted (map fst (sort_key fst ps))"
    by simp
qed

text \<open>
  C5: for partial trees with distinct ordinals, \<open>Merge\<close> gives the same final tree for
  every order in which the partials were put into the cache: the one it gives when they
  are put in the order of their ordinals.
\<close>

theorem merge_independent_of_insertion_order:
  assumes "distinct (map fst ps)" and "mset qs = mset ps"
  shows "Merge combine empty_tree (put_all (NewForRun rid) qs)
         = Merge combine empty_tree (put_all (NewForRun rid) (sort_key fst ps)) \<and>
         Merge combine empty_tree (put_all (NewForRun rid) qs)
         = foldl combine empty_tree (map snd (sort_key fst ps))"
proof -
  have "sort_key fst (sort_key fst ps) = sort_key fst ps"
    by (rule sort_key_fst_permutation [OF _ assms(1)]) simp
  with sort_key_fst_permutation [OF assms(2) assms(1)] show ?thesis
    by (simp add: Merge_def partials_put_all NewForRun_def)
qed

theorem merge_independent_of_insertion_order_witness:
  "distinct (map fst [(0::nat, ''A''), (1, ''B''), (2, ''C'')]) \<and>
   mset [(2::nat, ''C''), (0, ''A''), (1, ''B'')] = mset [(0, ''A''), (1, ''B''), (2, ''C'')] \<and>
   Merge (@) [] (put_all (NewForRun ''run'') [(2::nat, ''C''), (0, ''A''), (1, ''B'')])
     = Merge (@) [] (put_all (NewForRun ''run'') [(0::nat, ''A''), (1, ''B''), (2, ''C'')]) \<and>
   Merge (@) [] (put_all (NewForRun ''run'') [(2::nat, ''C''), (0, ''A''), (1, ''B'')])
     = ''ABC''"
  using merge_independent_of_insertion_order
    [of "[(0::nat, ''A''), (1, ''B''), (2, ''C'')]" "[(2::nat, ''C''), (0, ''A''), (1, ''B'')]"
        "(@)" "[]" "''run''"]
  by (simp add: Merge_def put_all_def Put_def NewForRun_def)

section \<open>Completion of a job's chunks\<close>

lemma run_events_snoc:
  "run_events (evs @ [ev]) cs = map (apply_event ev) (run_events evs cs)"
  by (simp add: run_events_def)

lemma apply_event_index: "chunk_index (apply_event ev c) = chunk_index c"
  by (cases ev) auto

lemma run_events_index: "map chunk_index (run_events evs cs) = map chunk_index cs"
  by (induction evs rule: rev_induct)
    (simp_all add: run_events_snoc run_events_def apply_event_index comp_def)

lemma apply_event_flag:
  "completion_flag (apply_event ev c) \<Longrightarrow> completion_flag c \<or> completes (chunk_index c) ev"
  by (cases ev) (auto split: if_splits)

lemma run_events_flag:
  "c' \<in> set (run_events evs cs) \<Longrightarrow> completion_flag c' \<Longrightarrow>
   (\<exists>c \<in> set cs. chunk_index c = chunk_index c' \<and> completion_flag c) \<or>
   (\<exists>ev \<in> set evs. completes (chunk_index c') ev)"
proof (induction evs arbitrary: c' rule: rev_induct)
  case Nil
  then show ?case by (auto simp: run_events_def)
next
  case (snoc ev evs)
  from snoc.prems(1) obtain c
    where c: "c \<in> set (run_events evs cs)" and c': "c' = apply_event ev c"
    by (auto simp: run_events_snoc)
  from snoc.prems(2) c' have "completion_flag c \<or> completes (chunk_index c) ev"
    by (auto dest: apply_event_flag)
  then show ?case
  proof
    assume "completion_flag c"
    from snoc.IH [OF c this] show ?thesis
      by (auto simp: c' apply_event_index)
  next
    assume "completes (chunk_index c) ev"
    then show ?thesis by (auto simp: c' apply_event_index)
  qed
qed

lemma enqueue_chunks_index: "map chunk_index (enqueue_chunks ranges) = [0..<length ranges]"
  by (simp add: enqueue_chunks_def comp_def case_prod_beta map_fst_enumerate)

lemma enqueue_chunks_flag: "c \<in> set (enqueue_chunks ranges) \<Longrightarrow> \<not> completion_flag c"
  by (auto simp: enqueue_chunks_def)

text \<open>
  C6: after any sequence of claims, renewals and completions on the chunks the Master
  enqueued, the Master reports the job complete if and only if every chunk has its
  completion flag set; when it does, every chunk of the job was completed by an event of
  the sequence.
\<close>

theorem job_complete_iff_all_chunks_complete:
  "(job_complete (run_events evs (enqueue_chunks ranges))
      \<longleftrightarrow> (\<forall>c \<in> set (run_events evs (enqueue_chunks ranges)). completion_flag c)) \<and>
   map chunk_index (run_events evs (enqueue_chunks ranges)) = [0..<length ranges] \<and>
   (job_complete (run_events evs (enqueue_chunks ranges))
      \<longrightarrow> (\<forall>i < length ranges. \<exists>ev \<in> set evs. completes i ev))"
proof -
  let ?cs = "run_events evs (enqueue_chunks ranges)"
  have iff: "job_complete ?cs \<longleftrightarrow> (\<forall>c \<in> set ?cs. completion_flag c)"
    by (simp add: job_complete_def list_all_iff)
  have idx: "map chunk_index ?cs = [0..<length ranges]"
    by (simp add: run_events_index enqueue_chunks_index)
  have "\<exists>ev \<in> set evs. completes i ev"
    if fin: "job_complete ?cs" and i: "i < length ranges" for i
  proof -
    from idx i have "i \<in> set (map chunk_index ?cs)" by simp
    then obtain c where c: "c \<in> set ?cs" "chunk_index c = i" by auto
    with fin have "completion_flag c" by (simp add: job_complete_def list_all_iff)
    from run_events_flag [OF c(1) this] enqueue_chunks_flag c(2)
    show ?thesis by blast
  qed
  with iff idx show ?thesis by blast
qed

theorem job_complete_iff_all_chunks_complete_witness:
  "job_complete (run_events
      [Claim ''w1'' 0 0 10, Claim ''w2'' 1 1 10, Complete ''w2'' 1 4, Complete ''w1'' 0 5]
      (enqueue_chunks [(0, 2), (2, 4)])) \<and>
   map chunk_index (run_events
      [Claim ''w1'' 0 0 10, Claim ''w2'' 1 1 10, Complete ''w2'' 1 4, Complete ''w1'' 0 5]
      (enqueue_chunks [(0, 2), (2, 4)])) = [0, 1] \<and>
   map completion_flag (run_events
      [Claim ''w1'' 0 0 10, Claim ''w2'' 1 1 10, Complete ''w2'' 1 4, Complete ''w1'' 0 5]
      (enqueue_chunks [(0, 2), (2, 4)])) = [True, True] \<and>
   \<not> job_complete (run_events
      [Claim ''w1'' 0 0 10, Claim ''w2'' 1 1 10, Complete ''w1'' 1 4, Complete ''w1'' 0 5]
      (enqueue_chunks [(0, 2), (2, 4)]))"
  using job_complete_iff_all_chunks_complete
    [of "[Claim ''w1'' 0 0 10, Claim ''w2'' 1 1 10, Complete ''w2'' 1 4, Complete ''w1'' 0 5]"
        "[(0, 2), (2, 4)]"]
  by (simp add: job_complete_def run_events_def enqueue_chunks_def lease_held_by_other_def)

section \<open>Joined paths\<close>

lemma split_sep_nonempty: "split_sep s \<noteq> []"
  by (induction s) (auto split: list.splits)

lemma split_sep_append:
  "split_sep (a @ CHR ''/'' # b) = split_sep a @ split_sep b"
  by (induction a) (auto split: list.splits simp: split_sep_nonempty)

lemma split_sep_no_sep: "CHR ''/'' \<notin> set e \<Longrightarrow> split_sep e = [e]"
  by (induction e) auto

lemma split_sep_elems: "e \<in> set (split_sep s) \<Longrightarrow> CHR ''/'' \<notin> set e"
  by (induction s arbitrary: e) (auto split: if_splits list.splits)

lemma strings_Join_Cons:
  "es \<noteq> [] \<Longrightarrow> strings_Join (e # es) sep = e @ sep @ strings_Join es sep"
  by (cases es) auto

lemma split_sep_strings_Join:
  "es \<noteq> [] \<Longrightarrow> \<forall>e \<in> set es. CHR ''/'' \<notin> set e \<Longrightarrow> split_sep (strings_Join es ''/'') = es"
proof (induction es)
  case Nil
  then show ?case by simp
next
  case (Cons e es)
  show ?case
  proof (cases "es = []")
    case True
    with Cons.prems show ?thesis by (simp add: split_sep_no_sep)
  next
    case False
    with Cons show ?thesis
      by (simp add: strings_Join_Cons split_sep_append split_sep_no_sep)
  qed
qed

lemma foldl_clean_step_plain:
  "\<forall>e \<in> set es. plain_name e \<Longrightarrow> foldl (clean_step rooted) out es = out @ es"
  by (induction es arbitrary: out) (auto simp: clean_step_def plain_name_def)

lemma strings_Join_append:
  "es \<noteq> [] \<Longrightarrow> strings_Join (out @ es) sep
     = (if out = [] then strings_Join es sep else strings_Join out sep @ sep @ strings_Join es sep)"
  by (induction out) (auto simp: strings_Join_Cons)

lemma clean_step_out:
  "clean_out out \<Longrightarrow> CHR ''/'' \<notin> set c \<Longrightarrow> clean_out (clean_step rooted out c)"
  by (auto simp: clean_out_def clean_step_def dest: in_set_butlastD)

lemma foldl_clean_step_out:
  "clean_out out \<Longrightarrow> \<forall>c \<in> set cs. CHR ''/'' \<notin> set c \<Longrightarrow> clean_out (foldl (clean_step rooted) out cs)"
  by (induction cs arbitrary: out) (auto simp: clean_step_out)

lemma strings_Join_clean_out:
  assumes "clean_out out" and "out \<noteq> []"
  shows "strings_Join out ''/'' \<noteq> [] \<and> hd (strings_Join out ''/'') \<noteq> CHR ''/'' \<and>
         strings_Join out ''/'' \<noteq> ''.''"
proof (cases out)
  case Nil
  with assms show ?thesis by simp
next
  case (Cons e es)
  with assms have e: "e \<noteq> []" "e \<noteq> ''.''" "CHR ''/'' \<notin> set e"
    by (auto simp: clean_out_def)
  then have hd: "hd e \<noteq> CHR ''/''" by (cases e) auto
  show ?thesis
  proof (cases "es = []")
    case True
    with Cons e hd show ?thesis by simp
  next
    case False
    with Cons e hd show ?thesis
      by (cases e) (auto simp: strings_Join_Cons)
  qed
qed

lemma strings_Join_plain:
  assumes "elems \<noteq> []" and "\<forall>e \<in> set elems. plain_name e"
  shows "strings_Join elems ''/'' \<noteq> [] \<and> hd (strings_Join elems ''/'') \<noteq> CHR ''/''"
proof -
  from assms(2) have "clean_out elems"
    by (auto simp: clean_out_def plain_name_def)
  from strings_Join_clean_out [OF this assms(1)] show ?thesis by simp
qed

lemma Join_plain:
  assumes "elems \<noteq> []" and "\<forall>e \<in> set elems. plain_name e"
  shows "Join (root # elems) = join_base root @ strings_Join elems ''/''"
proof (cases "root = []")
  case True
  from assms obtain e es where elems: "elems = e # es" by (cases elems) auto
  with assms have e: "e \<noteq> []" "hd e \<noteq> CHR ''/''"
    by (cases e; auto simp: plain_name_def)+
  have nosep: "\<forall>e \<in> set elems. CHR ''/'' \<notin> set e"
    using assms(2) by (auto simp: plain_name_def)
  have ne: "strings_Join elems ''/'' \<noteq> []" and h: "hd (strings_Join elems ''/'') \<noteq> CHR ''/''"
    using strings_Join_plain [OF assms] by auto
  have "Join (root # elems) = Clean (strings_Join elems ''/'')"
    using True e elems by (simp add: Join_def)
  also have "\<dots> = strings_Join elems ''/''"
    using ne h assms
    by (simp add: Clean_def Let_def split_sep_strings_Join [OF assms(1) nosep]
        foldl_clean_step_plain)
  finally show ?thesis using True by (simp add: join_base_def)
next
  case False
  let ?rooted = "hd root = CHR ''/''"
  let ?pre = "(if ?rooted then ''/'' else [])"
  let ?out0 = "foldl (clean_step ?rooted) [] (split_sep root)"
  let ?J = "strings_Join elems ''/''"
  have nosep: "\<forall>e \<in> set elems. CHR ''/'' \<notin> set e"
    using assms(2) by (auto simp: plain_name_def)
  have out0: "clean_out ?out0"
    by (rule foldl_clean_step_out) (auto simp: clean_out_def dest: split_sep_elems)
  have p: "strings_Join (root # elems) ''/'' = root @ CHR ''/'' # ?J"
    using assms(1) by (simp add: strings_Join_Cons)
  have "Join (root # elems) = Clean (root @ CHR ''/'' # ?J)"
    using False p by (simp add: Join_def)
  also have "\<dots> = ?pre @ strings_Join (?out0 @ elems) ''/''"
    using False assms strings_Join_plain [OF assms]
    by (simp add: Clean_def Let_def split_sep_append split_sep_strings_Join [OF assms(1) nosep]
        foldl_clean_step_plain strings_Join_append)
  finally have lhs: "Join (root # elems) = ?pre @ strings_Join (?out0 @ elems) ''/''" .
  have cr: "Clean root = (if ?pre @ strings_Join ?out0 ''/'' = [] then ''.''
                          else ?pre @ strings_Join ?out0 ''/'')"
    using False by (simp add: Clean_def Let_def)
  show ?thesis
  proof (cases "?out0 = []")
    case True
    then show ?thesis
      using False lhs cr by (auto simp: join_base_def)
  next
    case ne: False
    from strings_Join_clean_out [OF out0 ne]
    have j: "strings_Join ?out0 ''/'' \<noteq> []" "hd (strings_Join ?out0 ''/'') \<noteq> CHR ''/''"
      "strings_Join ?out0 ''/'' \<noteq> ''.''" by auto
    then have c: "Clean root = ?pre @ strings_Join ?out0 ''/''"
      "Clean root \<noteq> ''/''" "Clean root \<noteq> ''.''"
      using cr by (cases "strings_Join ?out0 ''/''"; auto)+
    show ?thesis
      using False lhs c ne assms(1) by (simp add: join_base_def strings_Join_append)
  qed
qed

section \<open>Cleaned paths and where they lead\<close>

lemma normal_out_Nil: "normal_out r []"
  unfolding normal_out_def by (rule exI [of _ 0]) simp

lemma normal_out_clean_out:
  assumes "normal_out r out"
  shows "clean_out out"
proof -
  from assms obtain m names where out: "out = replicate m ''..'' @ names"
    and names: "\<forall>n \<in> set names. plain_name n"
    unfolding normal_out_def by blast
  have "e \<noteq> [] \<and> e \<noteq> ''.'' \<and> CHR ''/'' \<notin> set e" if "e \<in> set out" for e
  proof -
    from that out have "e = ''..'' \<or> e \<in> set names" by auto
    then show ?thesis
    proof
      assume "e = ''..''"
      then show ?thesis by simp
    next
      assume "e \<in> set names"
      with names have "plain_name e" by blast
      then show ?thesis by (simp add: plain_name_def)
    qed
  qed
  then show ?thesis unfolding clean_out_def by blast
qed

lemma clean_step_normal:
  assumes "normal_out r out" and "CHR ''/'' \<notin> set c"
  shows "normal_out r (clean_step r out c)"
proof -
  from assms(1) obtain m names where out: "out = replicate m ''..'' @ names"
    and names: "\<forall>n \<in> set names. plain_name n" and r: "r \<longrightarrow> m = 0"
    by (auto simp: normal_out_def)
  consider (skip) "c = [] \<or> c = ''.''" | (up) "c = ''..''" | (name) "plain_name c"
    using assms(2) by (auto simp: plain_name_def)
  then show ?thesis
  proof cases
    case skip
    with assms(1) show ?thesis by (auto simp: clean_step_def)
  next
    case name
    then have "clean_step r out c = replicate m ''..'' @ (names @ [c])"
      by (auto simp: clean_step_def out plain_name_def)
    with names name r show ?thesis
      unfolding normal_out_def by (intro exI [of _ m] exI [of _ "names @ [c]"]) auto
  next
    case up
    show ?thesis
    proof (cases "names = []")
      case False
      then have l: "last out \<noteq> ''..''" "out \<noteq> []"
        using names by (auto simp: out plain_name_def)
      then have "clean_step r out c = replicate m ''..'' @ butlast names"
        using up False by (simp add: clean_step_def out butlast_append)
      with names r show ?thesis
        unfolding normal_out_def
        by (intro exI [of _ m] exI [of _ "butlast names"]) (auto dest: in_set_butlastD)
    next
      case True
      then have o: "out = replicate m ''..''" by (simp add: out)
      have nl: "out \<noteq> [] \<Longrightarrow> last out = ''..''"
        by (simp add: o)
      show ?thesis
      proof (cases r)
        case True
        with r o have "out = []" by simp
        with up True show ?thesis
          by (simp add: clean_step_def normal_out_Nil)
      next
        case False
        then have "clean_step r out c = replicate (Suc m) ''..''"
          using up nl unfolding clean_step_def o
          by (cases m) (simp_all add: replicate_append_same)
        with False show ?thesis
          unfolding normal_out_def
          by (intro exI [of _ "Suc m"] exI [of _ "[]"]) simp
      qed
    qed
  qed
qed

lemma foldl_clean_step_normal:
  "normal_out r out \<Longrightarrow> \<forall>c \<in> set cs. CHR ''/'' \<notin> set c \<Longrightarrow>
   normal_out r (foldl (clean_step r) out cs)"
  by (induction cs arbitrary: out) (auto simp: clean_step_normal)

lemma root_elems_normal: "normal_out (IsAbs root) (root_elems root)"
  unfolding root_elems_def
  by (auto intro!: foldl_clean_step_normal normal_out_Nil dest: split_sep_elems)

lemma normal_out_append:
  assumes "normal_out r out" and "\<forall>e \<in> set elems. plain_name e"
  shows "normal_out r (out @ elems)"
proof -
  from assms(1) obtain m names where out: "out = replicate m ''..'' @ names"
    and names: "\<forall>n \<in> set names. plain_name n" and r: "r \<longrightarrow> m = 0"
    by (auto simp: normal_out_def)
  with assms(2) show ?thesis
    unfolding normal_out_def
    by (intro exI [of _ m] exI [of _ "names @ elems"]) auto
qed

lemma Join_render:
  assumes "elems \<noteq> []" and "\<forall>e \<in> set elems. plain_name e"
  shows "Join (root # elems) = render (IsAbs root) (root_elems root @ elems)"
proof (cases "root = []")
  case True
  from Join_plain [OF assms, of root] True show ?thesis
    by (simp add: join_base_def render_def root_elems_def IsAbs_def)
next
  case False
  let ?rooted = "hd root = CHR ''/''"
  let ?out0 = "foldl (clean_step ?rooted) [] (split_sep root)"
  let ?J = "strings_Join elems ''/''"
  have nosep: "\<forall>e \<in> set elems. CHR ''/'' \<notin> set e"
    using assms(2) by (auto simp: plain_name_def)
  have p: "strings_Join (root # elems) ''/'' = root @ CHR ''/'' # ?J"
    using assms(1) by (simp add: strings_Join_Cons)
  have "Join (root # elems) = Clean (root @ CHR ''/'' # ?J)"
    using False p by (simp add: Join_def)
  also have "\<dots> = (if ?rooted then ''/'' else []) @ strings_Join (?out0 @ elems) ''/''"
    using False assms strings_Join_plain [OF assms]
    by (simp add: Clean_def Let_def split_sep_append split_sep_strings_Join [OF assms(1) nosep]
        foldl_clean_step_plain strings_Join_append)
  finally show ?thesis
    using False by (simp add: render_def root_elems_def IsAbs_def)
qed

lemma foldl_walk_plain:
  "\<forall>n \<in> set names. plain_name n \<Longrightarrow> foldl walk l names = l @ names"
  by (induction names arbitrary: l) (auto simp: walk_def plain_name_def)

lemma foldl_walk_dots: "foldl walk l (replicate m ''..'') = take (length l - m) l"
proof (induction m arbitrary: l)
  case 0
  then show ?case by simp
next
  case (Suc m)
  have "foldl walk l (replicate (Suc m) ''..'') = foldl walk (butlast l) (replicate m ''..'')"
    by (simp add: walk_def)
  also have "\<dots> = take (length (butlast l) - m) (butlast l)"
    by (rule Suc.IH)
  also have "\<dots> = take (length l - Suc m) l"
    by (simp add: butlast_conv_take min_def)
  finally show ?case .
qed

lemma resolve_render:
  assumes "clean_out out" and "r \<or> out \<noteq> []"
  shows "resolve w (render r out) = foldl walk (if r then [] else cwd w) out"
    and "render r out \<noteq> []"
proof -
  have nosep: "\<forall>e \<in> set out. CHR ''/'' \<notin> set e"
    using assms(1) by (auto simp: clean_out_def)
  show "render r out \<noteq> []"
    using assms strings_Join_clean_out [OF assms(1)] by (auto simp: render_def)
  show "resolve w (render r out) = foldl walk (if r then [] else cwd w) out"
  proof (cases r)
    case True
    then have a: "IsAbs (render r out)"
      by (simp add: render_def IsAbs_def)
    have "split_sep (render r out) = [] # (if out = [] then [[]] else out)"
      using True nosep by (simp add: render_def split_sep_strings_Join)
    with a True show ?thesis
      by (simp add: resolve_def walk_def)
  next
    case False
    with assms(2) have ne: "out \<noteq> []" by simp
    from strings_Join_clean_out [OF assms(1) ne] False
    have a: "\<not> IsAbs (render r out)"
      by (simp add: render_def IsAbs_def)
    have "split_sep (render r out) = out"
      using False nosep ne by (simp add: render_def split_sep_strings_Join)
    with a False show ?thesis
      by (simp add: resolve_def)
  qed
qed

lemma render_snoc:
  "out \<noteq> [] \<Longrightarrow> render r (out @ [n]) = render r out @ CHR ''/'' # n"
  by (simp add: render_def strings_Join_append)

lemma render_single: "render r [n] = (if r then ''/'' else []) @ n"
  by (simp add: render_def)

lemma parent_prefix_snoc:
  assumes "CHR ''/'' \<notin> set n" and "n \<noteq> []"
  shows "parent_prefix (x @ CHR ''/'' # n) = x @ ''/''"
proof -
  have r: "rev (x @ CHR ''/'' # n) = rev n @ CHR ''/'' # rev x"
    by simp
  from assms have "last n \<noteq> CHR ''/''"
    by (metis last_in_set)
  with assms have "hd (rev n) \<noteq> CHR ''/''" "rev n \<noteq> []"
    by (simp_all add: hd_rev)
  then have "dropWhile (\<lambda>c. c = CHR ''/'') (rev n @ CHR ''/'' # rev x) = rev n @ CHR ''/'' # rev x"
    by (cases "rev n") auto
  moreover have "dropWhile (\<lambda>c. c \<noteq> CHR ''/'') (rev n @ CHR ''/'' # rev x)
      = dropWhile (\<lambda>c. c \<noteq> CHR ''/'') (CHR ''/'' # rev x)"
    by (rule dropWhile_append2) (use assms(1) in auto)
  ultimately show ?thesis
    unfolding parent_prefix_def r by simp
qed

lemma parent_prefix_plain:
  assumes "CHR ''/'' \<notin> set n"
  shows "parent_prefix n = []"
proof -
  have a: "\<forall>c \<in> set (rev n). c \<noteq> CHR ''/''"
    using assms by auto
  then have "dropWhile (\<lambda>c. c = CHR ''/'') (rev n) = rev n"
    by (cases "rev n") auto
  moreover have "dropWhile (\<lambda>c. c \<noteq> CHR ''/'') (rev n) = []"
    using a by simp
  ultimately show ?thesis
    unfolding parent_prefix_def by simp
qed




lemma root_location_empty: "root_location w [] = cwd w"
  by (simp add: root_location_def root_elems_def IsAbs_def)

lemma root_location_cwd:
  "IsAbs root \<or> cwd v = cwd w \<Longrightarrow> root_location v root = root_location w root"
  by (auto simp: root_location_def)

lemma Join_resolve:
  assumes "elems \<noteq> []" and "\<forall>e \<in> set elems. plain_name e"
  shows "resolve w (Join (root # elems)) = root_location w root @ elems"
    and "Join (root # elems) \<noteq> []"
    and "\<not> endsWithDot (Join (root # elems))"
proof -
  let ?out = "root_elems root @ elems"
  have n: "normal_out (IsAbs root) ?out"
    using root_elems_normal assms(2) by (rule normal_out_append)
  then have co: "clean_out ?out"
    by (rule normal_out_clean_out)
  have ne: "IsAbs root \<or> ?out \<noteq> []"
    using assms(1) by simp
  have j: "Join (root # elems) = render (IsAbs root) ?out"
    using assms by (rule Join_render)
  show "resolve w (Join (root # elems)) = root_location w root @ elems"
    unfolding j resolve_render(1) [OF co ne]
    by (simp add: root_location_def foldl_walk_plain [OF assms(2)])
  show "Join (root # elems) \<noteq> []"
    unfolding j by (rule resolve_render(2) [OF co ne])
  have nosep: "\<forall>e \<in> set ?out. CHR ''/'' \<notin> set e"
    using co by (auto simp: clean_out_def)
  have "split_sep (render (IsAbs root) ?out) = (if IsAbs root then [[]] else []) @ ?out"
    using nosep assms(1) by (simp add: render_def split_sep_strings_Join)
  then have "last (split_sep (Join (root # elems))) = last elems"
    unfolding j using assms(1) by simp
  moreover have "last elems \<noteq> ''.''"
    using assms by (auto simp: plain_name_def dest: last_in_set)
  ultimately show "\<not> endsWithDot (Join (root # elems))"
    by (simp add: endsWithDot_def)
qed

section \<open>Creating and removing directories\<close>

lemma normal_parts_clean_out:
  "\<forall>n \<in> set names. plain_name n \<Longrightarrow> clean_out (replicate m ''..'' @ names)"
  by (rule normal_out_clean_out [of False]) (auto simp: normal_out_def)

lemma MkdirAll_normal:
  assumes H: "\<forall>l. prefix l (cwd w) \<longrightarrow> stat w l = Some Dir"
    and r: "r \<longrightarrow> m = 0"
    and names: "\<forall>n \<in> set names. plain_name n"
    and ne: "r \<or> 0 < m \<or> names \<noteq> []"
    and run: "MkdirAll (render r (replicate m ''..'' @ names)) w = (e, w')"
  shows "cwd w' = cwd w \<and> mkdir_denied w' = mkdir_denied w \<and>
         remove_denied w' = remove_denied w \<and> uuid_next w' = uuid_next w \<and>
         (\<forall>q. fs w' q \<noteq> fs w q \<longrightarrow>
              prefix q (foldl walk (if r then [] else cwd w) (replicate m ''..'' @ names)) \<and>
              fs w q = None \<and> fs w' q = Some Dir) \<and>
         (e = None \<longrightarrow>
            stat w' (foldl walk (if r then [] else cwd w) (replicate m ''..'' @ names)) = Some Dir) \<and>
         (e \<noteq> None \<longrightarrow>
            fs w' (foldl walk (if r then [] else cwd w) (replicate m ''..'' @ names))
              = fs w (foldl walk (if r then [] else cwd w) (replicate m ''..'' @ names))) \<and>
         ((\<forall>q. \<not> mkdir_denied w q) \<and> (\<forall>q. fs w q \<noteq> Some File) \<longrightarrow> e = None)"
  using names ne run
proof (induction names arbitrary: e w' rule: rev_induct)
  case Nil
  let ?start = "if r then [] else cwd w"
  let ?p = "render r (replicate m ''..'')"
  have co: "clean_out (replicate m ''..'')"
    using normal_parts_clean_out [where names = "[]" and m = m] by simp
  have ne': "r \<or> replicate m ''..'' \<noteq> []"
    using Nil.prems(2) by auto
  have res: "resolve w ?p = foldl walk ?start (replicate m ''..'')" and pne: "?p \<noteq> []"
    using resolve_render(1) [OF co ne', of w] resolve_render(2) [OF co ne'] by simp_all
  have "prefix (foldl walk ?start (replicate m ''..'')) (cwd w)"
    by (simp add: foldl_walk_dots take_is_prefix)
  with H have "stat w (foldl walk ?start (replicate m ''..'')) = Some Dir"
    by blast
  with res pne have "MkdirAll ?p w = (None, w)"
    by (simp add: MkdirAll.simps [of ?p w] os_Stat_def)
  with Nil.prems(3) have "e = None" "w' = w" by simp_all
  with \<open>stat w (foldl walk ?start (replicate m ''..'')) = Some Dir\<close> show ?case
    by simp
next
  case (snoc n ns)
  let ?start = "if r then [] else cwd w"
  let ?out' = "replicate m ''..'' @ ns"
  let ?p' = "render r ?out'"
  let ?p = "render r (replicate m ''..'' @ ns @ [n])"
  let ?L' = "foldl walk ?start ?out'"
  let ?L = "?L' @ [n]"
  from snoc.prems(1) have ns: "\<forall>n \<in> set ns. plain_name n" and n: "plain_name n"
    by auto
  have nsep: "CHR ''/'' \<notin> set n" "n \<noteq> []"
    using n by (auto simp: plain_name_def)
  have co: "clean_out (replicate m ''..'' @ ns @ [n])"
    using normal_parts_clean_out [where names = "ns @ [n]" and m = m] snoc.prems(1) by simp
  have res: "resolve v ?p = foldl walk (if r then [] else cwd v) (replicate m ''..'' @ ns @ [n])"
    and pne: "?p \<noteq> []" for v
    using resolve_render(1) [OF co, of r v] resolve_render(2) [OF co, of r] by simp_all
  have L: "foldl walk s (replicate m ''..'' @ ns @ [n])
      = foldl walk s (replicate m ''..'' @ ns) @ [n]" for s
    using n by (simp add: walk_def plain_name_def)
  have resw: "resolve w ?p = ?L"
    using res [of w] L by simp
  have resv: "resolve v ?p = ?L" if "cwd v = cwd w" for v
    using res [of v] L that by simp
  have Lne: "?L \<noteq> []" by simp
  have run': "MkdirAll ?p w = (e, w')"
    using snoc.prems(3) by simp
  have goal_eq: "foldl walk ?start (replicate m ''..'' @ ns @ [n]) = ?L"
    by (rule L)
  have statL: "os_Stat ?p w = fs w ?L"
    using pne resw by (simp add: os_Stat_def stat_def)
  show ?case
    unfolding goal_eq
  proof (cases "fs w ?L")
    case (Some ent)
    show "cwd w' = cwd w \<and> mkdir_denied w' = mkdir_denied w \<and>
         remove_denied w' = remove_denied w \<and> uuid_next w' = uuid_next w \<and>
         (\<forall>q. fs w' q \<noteq> fs w q \<longrightarrow> prefix q ?L \<and> fs w q = None \<and> fs w' q = Some Dir) \<and>
         (e = None \<longrightarrow> stat w' ?L = Some Dir) \<and>
         (e \<noteq> None \<longrightarrow> fs w' ?L = fs w ?L) \<and>
         ((\<forall>q. \<not> mkdir_denied w q) \<and> (\<forall>q. fs w q \<noteq> Some File) \<longrightarrow> e = None)"
    proof (cases ent)
      case Dir
      with Some statL have "MkdirAll ?p w = (None, w)"
        by (simp add: MkdirAll.simps [of ?p w])
      with run' have "e = None" "w' = w" by simp_all
      with Some Dir show ?thesis by (simp add: stat_def)
    next
      case File
      with Some statL have "MkdirAll ?p w = (Some (MkdirError ?p), w)"
        by (simp add: MkdirAll.simps [of ?p w])
      with run' have "e = Some (MkdirError ?p)" "w' = w" by simp_all
      with Some File show ?thesis by auto
    qed
  next
    case None
    text \<open>What \<open>os.Mkdir\<close> does at the path in a world where its parent is a directory.\<close>
    have mk: "os_Mkdir ?p v =
        (if mkdir_denied v ?L then (Some (MkdirError ?p), v)
         else (None, v\<lparr>fs := (fs v)(?L \<mapsto> Dir)\<rparr>))"
      if "cwd v = cwd w" and "fs v ?L = None" and "stat v ?L' = Some Dir" for v
      using resv [OF that(1)] that pne by (simp add: os_Mkdir_def stat_def)
    have st: "os_Stat ?p v = fs v ?L" if "cwd v = cwd w" for v
      using resv [OF that] pne by (simp add: os_Stat_def stat_def)
    show "cwd w' = cwd w \<and> mkdir_denied w' = mkdir_denied w \<and>
         remove_denied w' = remove_denied w \<and> uuid_next w' = uuid_next w \<and>
         (\<forall>q. fs w' q \<noteq> fs w q \<longrightarrow> prefix q ?L \<and> fs w q = None \<and> fs w' q = Some Dir) \<and>
         (e = None \<longrightarrow> stat w' ?L = Some Dir) \<and>
         (e \<noteq> None \<longrightarrow> fs w' ?L = fs w ?L) \<and>
         ((\<forall>q. \<not> mkdir_denied w q) \<and> (\<forall>q. fs w q \<noteq> Some File) \<longrightarrow> e = None)"
    proof (cases "?out' = []")
      case True
      then have p: "?p = (if r then ''/'' else []) @ n"
        by (simp add: render_def)
      have "length (parent_prefix ?p) \<le> 1"
        using nsep parent_prefix_snoc [of n "[]"] parent_prefix_plain [of n]
        unfolding p by (cases r) simp_all
      then have norec: "\<not> 1 < length (parent_prefix ?p)" by simp
      from True have L': "?L' = ?start" by simp
      have "prefix ?start (cwd w)" by simp
      with H have "stat w ?start = Some Dir" by blast
      with L' have sd: "stat w ?L' = Some Dir" by simp
      show ?thesis
      proof (cases "mkdir_denied w ?L")
        case True
        have "MkdirAll ?p w = (Some (MkdirError ?p), w)"
          using None statL norec mk [of w, OF refl None sd] True st [of w]
          by (simp add: MkdirAll.simps [of ?p w])
        with run' have "e = Some (MkdirError ?p)" "w' = w" by simp_all
        with True show ?thesis by auto
      next
        case False
        have "MkdirAll ?p w = (None, w\<lparr>fs := (fs w)(?L \<mapsto> Dir)\<rparr>)"
          using None statL norec mk [of w, OF refl None sd] False
          by (simp add: MkdirAll.simps [of ?p w])
        with run' have "e = None" "w' = w\<lparr>fs := (fs w)(?L \<mapsto> Dir)\<rparr>" by simp_all
        with None show ?thesis by (auto simp: stat_def)
      qed
    next
      case False
      then have p: "?p = ?p' @ CHR ''/'' # n"
        using render_snoc [of ?out' r n] by simp
      have co': "clean_out ?out'"
        using normal_parts_clean_out [OF ns, where m = m] .
      have ne': "r \<or> ?out' \<noteq> []"
        using False by simp
      have p'ne: "?p' \<noteq> []"
        using resolve_render(2) [OF co' ne'] .
      have pp: "parent_prefix ?p = ?p' @ ''/''"
        unfolding p using nsep by (rule parent_prefix_snoc)
      then have rec: "1 < length (parent_prefix ?p)"
        using p'ne by (cases ?p') simp_all
      have par: "take (length (parent_prefix ?p) - 1) ?p = ?p'"
        unfolding pp by (simp add: p)
      obtain e1 w1 where m1: "MkdirAll ?p' w = (e1, w1)"
        by (cases "MkdirAll ?p' w")
      have ne'': "r \<or> 0 < m \<or> ns \<noteq> []"
        using False by auto
      note IH = snoc.IH [OF ns ne'' m1]
      from IH have fr: "cwd w1 = cwd w" "mkdir_denied w1 = mkdir_denied w"
        "remove_denied w1 = remove_denied w" "uuid_next w1 = uuid_next w"
        by simp_all
      from IH have ch: "prefix q ?L' \<and> fs w q = None \<and> fs w1 q = Some Dir"
        if "fs w1 q \<noteq> fs w q" for q
        using that by blast
      have chL: "prefix q ?L \<and> fs w q = None \<and> fs w1 q = Some Dir"
        if "fs w1 q \<noteq> fs w q" for q
        using ch [OF that] by (auto intro: prefix_order.trans)
      have "\<not> prefix ?L ?L'"
        by (auto dest: prefix_length_le)
      with ch [of ?L] have keep: "fs w1 ?L = fs w ?L" by blast
      show ?thesis
      proof (cases e1)
        case (Some err)
        have "MkdirAll ?p w = (Some err, w1)"
          using None statL rec par m1 Some
          by (simp add: MkdirAll.simps [of ?p w])
        with run' have ew: "e = Some err" "w' = w1" by simp_all
        from IH Some have "\<not> ((\<forall>q. \<not> mkdir_denied w q) \<and> (\<forall>q. fs w q \<noteq> Some File))"
          by auto
        with ew fr chL keep show ?thesis by auto
      next
        case e1: None
        with IH have sd: "stat w1 ?L' = Some Dir" by simp
        have n1: "fs w1 ?L = None"
          using keep None by simp
        show ?thesis
        proof (cases "mkdir_denied w ?L")
          case True
          have "MkdirAll ?p w = (Some (MkdirError ?p), w1)"
            using None statL rec par m1 e1 mk [of w1, OF fr(1) n1 sd] True fr(2)
              st [of w1, OF fr(1)] n1
            by (simp add: MkdirAll.simps [of ?p w])
          with run' have ew: "e = Some (MkdirError ?p)" "w' = w1" by simp_all
          with True fr chL keep show ?thesis by auto
        next
          case False
          have "MkdirAll ?p w = (None, w1\<lparr>fs := (fs w1)(?L \<mapsto> Dir)\<rparr>)"
            using None statL rec par m1 e1 mk [of w1, OF fr(1) n1 sd] False fr(2)
            by (simp add: MkdirAll.simps [of ?p w])
          with run' have ew: "e = None" "w' = w1\<lparr>fs := (fs w1)(?L \<mapsto> Dir)\<rparr>" by simp_all
          have "prefix q ?L \<and> fs w q = None \<and> fs w' q = Some Dir" if "fs w' q \<noteq> fs w q" for q
          proof (cases "q = ?L")
            case True
            with None ew show ?thesis by simp
          next
            case False
            with that ew have "fs w1 q \<noteq> fs w q" by simp
            from chL [OF this] False ew show ?thesis by simp
          qed
          with ew fr show ?thesis by (simp add: stat_def)
        qed
      qed
    qed
  qed
qed

lemma MkdirAll_run:
  assumes H: "\<forall>l. prefix l (cwd w) \<longrightarrow> stat w l = Some Dir"
    and ne: "elems \<noteq> []" and plain: "\<forall>e \<in> set elems. plain_name e"
    and run: "MkdirAll (Join (root # elems)) w = (e, w')"
  shows "cwd w' = cwd w \<and> mkdir_denied w' = mkdir_denied w \<and>
         remove_denied w' = remove_denied w \<and> uuid_next w' = uuid_next w \<and>
         (\<forall>q. fs w' q \<noteq> fs w q \<longrightarrow>
              prefix q (root_location w root @ elems) \<and> fs w q = None \<and> fs w' q = Some Dir) \<and>
         (e = None \<longrightarrow> fs w' (root_location w root @ elems) = Some Dir) \<and>
         (e \<noteq> None \<longrightarrow>
            fs w' (root_location w root @ elems) = fs w (root_location w root @ elems)) \<and>
         ((\<forall>q. \<not> mkdir_denied w q) \<and> (\<forall>q. fs w q \<noteq> Some File) \<longrightarrow> e = None)"
proof -
  let ?r = "IsAbs root"
  from root_elems_normal [of root] obtain m names
    where re: "root_elems root = replicate m ''..'' @ names"
      and names: "\<forall>n \<in> set names. plain_name n" and r: "?r \<longrightarrow> m = 0"
    by (auto simp: normal_out_def)
  have j: "Join (root # elems) = render ?r (replicate m ''..'' @ (names @ elems))"
    using Join_render [OF ne plain, of root] by (simp add: re)
  have pl: "\<forall>n \<in> set (names @ elems). plain_name n"
    using names plain by auto
  have nn: "?r \<or> 0 < m \<or> names @ elems \<noteq> []"
    using ne by simp
  have loc: "foldl walk (if ?r then [] else cwd w) (replicate m ''..'' @ (names @ elems))
      = root_location w root @ elems"
    by (simp add: root_location_def re foldl_walk_plain [OF plain])
  have st: "stat v (root_location w root @ elems) = fs v (root_location w root @ elems)" for v
    using ne by (simp add: stat_def)
  from MkdirAll_normal [OF H r pl nn run [unfolded j]]
  show ?thesis
    unfolding loc st by blast
qed

lemma MkdirAll_keeps_ancestors:
  assumes "\<forall>l. prefix l (cwd w) \<longrightarrow> stat w l = Some Dir"
    and "cwd w' = cwd w"
    and "\<forall>q. fs w' q \<noteq> fs w q \<longrightarrow> fs w q = None"
  shows "\<forall>l. prefix l (cwd w') \<longrightarrow> stat w' l = Some Dir"
proof (intro allI impI)
  fix l assume "prefix l (cwd w')"
  with assms(1,2) have s: "stat w l = Some Dir" by simp
  show "stat w' l = Some Dir"
  proof (cases "l = []")
    case True
    then show ?thesis by (simp add: stat_def)
  next
    case False
    with s have "fs w l = Some Dir" by (simp add: stat_def)
    with assms(3) have "fs w' l = Some Dir" by (metis option.distinct(1))
    with False show ?thesis by (simp add: stat_def)
  qed
qed

lemma RemoveAll_frame:
  "cwd (snd (RemoveAll p w)) = cwd w \<and> mkdir_denied (snd (RemoveAll p w)) = mkdir_denied w \<and>
   remove_denied (snd (RemoveAll p w)) = remove_denied w \<and>
   uuid_next (snd (RemoveAll p w)) = uuid_next w"
  by (simp add: RemoveAll_def Let_def)

lemma RemoveAll_only_removes:
  "fs (snd (RemoveAll p w)) q = fs w q \<or> fs (snd (RemoveAll p w)) q = None"
  by (simp add: RemoveAll_def Let_def)


lemma RemoveAll_removes:
  assumes "p \<noteq> []" and "\<not> endsWithDot p" and "prefix (resolve w p) q"
    and "fs (snd (RemoveAll p w)) q \<noteq> None"
  shows "\<exists>r \<in> set (remove_denied w). prefix q r"
  using assms
  by (auto simp: RemoveAll_def Let_def list_ex_iff blocked_entries_def split: if_splits)

lemma snd_defer_RemoveAll: "snd (defer_RemoveAll p r) = snd (RemoveAll p (snd r))"
  by (cases r) (simp add: defer_RemoveAll_def split: prod.splits outcome.splits)

lemma fst_defer_RemoveAll:
  "fst (defer_RemoveAll p r) =
     (case fst r of
        Panics \<Rightarrow> Panics
      | Returns retErr \<Rightarrow>
          Returns (if retErr = None then fst (RemoveAll p (snd r)) else retErr))"
  by (cases r) (auto simp: defer_RemoveAll_def split: prod.splits outcome.splits)

text \<open>The removal reports an error exactly when an entry that cannot be unlinked is there.\<close>

lemma find_deepest:
  assumes "b \<noteq> []"
  shows "find (\<lambda>r. \<not> list_ex (strict_prefix r) b) b \<noteq> None"
proof -
  obtain r where r: "r \<in> set b" and mx: "\<forall>s \<in> set b. length s \<le> length r"
  proof -
    have "finite (length ` set b)" "length ` set b \<noteq> {}"
      using assms by simp_all
    then have "Max (length ` set b) \<in> length ` set b"
      by (rule Max_in)
    then obtain r where "r \<in> set b" "length r = Max (length ` set b)" by auto
    moreover have "\<forall>s \<in> set b. length s \<le> Max (length ` set b)"
      by simp
    ultimately show ?thesis using that by auto
  qed
  have "\<not> list_ex (strict_prefix r) b"
  proof
    assume "list_ex (strict_prefix r) b"
    then obtain s where "s \<in> set b" "strict_prefix r s"
      by (auto simp: list_ex_iff)
    then have "length r < length s"
      by (simp add: prefix_length_less)
    with mx \<open>s \<in> set b\<close> show False by force
  qed
  with r show ?thesis
    by (auto simp: find_None_iff)
qed

lemma RemoveAll_error:
  assumes "p \<noteq> []" and "\<not> endsWithDot p"
  shows "fst (RemoveAll p w) = None \<longleftrightarrow> blocked_entries (resolve w p) w = []"
proof (cases "blocked_entries (resolve w p) w = []")
  case True
  with assms show ?thesis
    by (simp add: RemoveAll_def Let_def)
next
  case False
  from find_deepest [OF this] obtain r
    where "find (\<lambda>r. \<not> list_ex (strict_prefix r) (blocked_entries (resolve w p) w))
             (blocked_entries (resolve w p) w) = Some r"
    by auto
  with assms False show ?thesis
    by (simp add: RemoveAll_def Let_def)
qed

section \<open>A run of the datum caches\<close>

lemma plain_datum:
  "plain_name ''datum''" "plain_name ''datumStats''" "plain_name ''chunk''"
  "plain_name ''chunkStats''"
  by (simp_all add: plain_name_def)

lemma WithDatumCache_run:
  assumes opts: "md_options h md = Some opts"
    and cid: "cacheID = uuid (uuid_next w)" and plain: "plain_name cacheID"
    and p1: "datumCachePath = Join [HashtreePath opts, ''datum'', cacheID]"
    and p2: "statsCachePath = Join [HashtreePath opts, ''datumStats'', cacheID]"
    and a1: "datumDir = root_location w (HashtreePath opts) @ [''datum'', cacheID]"
    and a2: "statsDir = root_location w (HashtreePath opts) @ [''datumStats'', cacheID]"
    and H: "\<forall>l. prefix l (cwd w) \<longrightarrow> stat w l = Some Dir"
    and fresh: "\<forall>q. prefix datumDir q \<or> prefix statsDir q \<longrightarrow> fs w q = None"
    and m1: "MkdirAll datumCachePath (w\<lparr>uuid_next := Suc (uuid_next w)\<rparr>) = (e1, w1)"
    and m2: "MkdirAll statsCachePath w1 = (e2, w2)"
    and c: "cb (NewMergeCache datumCachePath) (NewMergeCache statsCachePath) w2 = (out, w3)"
  shows "(e1 \<noteq> None \<longrightarrow> WithDatumCache uuid h md cb w = (Returns e1, w1)) \<and>
     (e1 = None \<longrightarrow> fs w1 datumDir = Some Dir) \<and>
     (e1 = None \<and> e2 \<noteq> None \<longrightarrow>
        WithDatumCache uuid h md cb w = (Returns e2, snd (RemoveAll datumCachePath w2))) \<and>
     (e1 = None \<and> e2 = None \<longrightarrow>
        fs w2 datumDir = Some Dir \<and> fs w2 statsDir = Some Dir \<and>
        cwd w2 = cwd w \<and> uuid_next w2 = Suc (uuid_next w) \<and>
        (\<forall>l. prefix l (cwd w2) \<longrightarrow> stat w2 l = Some Dir) \<and>
        WithDatumCache uuid h md cb w
          = defer_RemoveAll datumCachePath (defer_RemoveAll statsCachePath (out, w3))) \<and>
     ((\<forall>q. \<not> mkdir_denied w q) \<and> (\<forall>q. fs w q \<noteq> Some File) \<longrightarrow> e1 = None \<and> e2 = None) \<and>
     (\<forall>q. (prefix datumDir q \<or> prefix statsDir q) \<and>
          (IsAbs (HashtreePath opts) \<or> cwd (snd (WithDatumCache uuid h md cb w)) = cwd w) \<and>
          fs (snd (WithDatumCache uuid h md cb w)) q \<noteq> None \<longrightarrow>
          (\<exists>r \<in> set (remove_denied (snd (WithDatumCache uuid h md cb w))). prefix q r))"
proof -
  let ?root = "HashtreePath opts"
  let ?w0 = "w\<lparr>uuid_next := Suc (uuid_next w)\<rparr>"
  let ?W = "snd (WithDatumCache uuid h md cb w)"
  have e1s: "[''datum'', cacheID] \<noteq> []" "\<forall>e \<in> set [''datum'', cacheID]. plain_name e"
    and e2s: "[''datumStats'', cacheID] \<noteq> []" "\<forall>e \<in> set [''datumStats'', cacheID]. plain_name e"
    using plain by (simp_all add: plain_datum)
  have rl: "root_location v ?root = root_location w ?root" if "IsAbs ?root \<or> cwd v = cwd w" for v
    using that by (rule root_location_cwd)
  have res1: "resolve v datumCachePath = datumDir"
    and res2: "resolve v statsCachePath = statsDir" if "IsAbs ?root \<or> cwd v = cwd w" for v
    unfolding p1 p2 a1 a2 Join_resolve(1) [OF e1s] Join_resolve(1) [OF e2s] rl [OF that]
    by simp_all
  have pne: "datumCachePath \<noteq> []" "\<not> endsWithDot datumCachePath"
    "statsCachePath \<noteq> []" "\<not> endsWithDot statsCachePath"
    unfolding p1 p2
    using Join_resolve(2,3) [OF e1s] Join_resolve(2,3) [OF e2s] by simp_all
  have apart: "\<not> prefix datumDir statsDir" "\<not> prefix statsDir datumDir"
    unfolding a1 a2 by simp_all
  have H0: "\<forall>l. prefix l (cwd ?w0) \<longrightarrow> stat ?w0 l = Some Dir"
    using H by (auto simp: stat_def)
  note F1 = MkdirAll_run [OF H0 e1s m1 [unfolded p1]]
  have loc0: "root_location ?w0 ?root = root_location w ?root"
    by (simp add: root_location_def)
  from F1 have fr1: "cwd w1 = cwd w" "mkdir_denied w1 = mkdir_denied w"
    "remove_denied w1 = remove_denied w" "uuid_next w1 = Suc (uuid_next w)"
    by simp_all
  from F1 have ch1: "prefix q datumDir \<and> fs w q = None \<and> fs w1 q = Some Dir"
    if "fs w1 q \<noteq> fs w q" for q
    using that unfolding a1 loc0 by simp
  from F1 have ok1: "e1 = None \<Longrightarrow> fs w1 datumDir = Some Dir"
    and ko1: "e1 \<noteq> None \<Longrightarrow> fs w1 datumDir = fs w datumDir"
    and su1: "(\<forall>q. \<not> mkdir_denied w q) \<and> (\<forall>q. fs w q \<noteq> Some File) \<Longrightarrow> e1 = None"
    unfolding a1 loc0 by simp_all
  have H1: "\<forall>l. prefix l (cwd w1) \<longrightarrow> stat w1 l = Some Dir"
    using H fr1(1) ch1 by (intro MkdirAll_keeps_ancestors [of w w1]) auto
  note F2 = MkdirAll_run [OF H1 e2s m2 [unfolded p2]]
  have loc1: "root_location w1 ?root = root_location w ?root"
    using fr1(1) by (simp add: root_location_def)
  from F2 have fr2: "cwd w2 = cwd w" "mkdir_denied w2 = mkdir_denied w"
    "remove_denied w2 = remove_denied w" "uuid_next w2 = Suc (uuid_next w)"
    using fr1 by simp_all
  from F2 have ch2: "prefix q statsDir \<and> fs w1 q = None \<and> fs w2 q = Some Dir"
    if "fs w2 q \<noteq> fs w1 q" for q
    using that unfolding a2 loc1 by simp
  from F2 have ok2: "e2 = None \<Longrightarrow> fs w2 statsDir = Some Dir"
    and ko2: "e2 \<noteq> None \<Longrightarrow> fs w2 statsDir = fs w1 statsDir"
    and su2: "(\<forall>q. \<not> mkdir_denied w1 q) \<and> (\<forall>q. fs w1 q \<noteq> Some File) \<Longrightarrow> e2 = None"
    unfolding a2 loc1 by simp_all
  have H2: "\<forall>l. prefix l (cwd w2) \<longrightarrow> stat w2 l = Some Dir"
    using H1 fr1(1) fr2(1) ch2 by (intro MkdirAll_keeps_ancestors [of w1 w2]) auto
  have keep1: "fs w2 datumDir = fs w1 datumDir"
    using ch2 [of datumDir] apart by (metis prefix_order.eq_iff prefix_order.trans)
  text \<open>Below the stats directory nothing is there until it is made.\<close>
  have none2_w1: "fs w1 q = None" if "prefix statsDir q" for q
  proof (rule ccontr)
    assume "fs w1 q \<noteq> None"
    with fresh that have "fs w1 q \<noteq> fs w q" by simp
    from ch1 [OF this] that have "prefix statsDir datumDir"
      by (auto intro: prefix_order.trans)
    with apart show False by simp
  qed
  have case1: "WithDatumCache uuid h md cb w = (Returns e1, w1)" if "e1 \<noteq> None"
    using that m1 by (auto simp: WithDatumCache_def Let_def opts cid p1 p2)
  have case2: "WithDatumCache uuid h md cb w = (Returns e2, snd (RemoveAll datumCachePath w2))"
    if "e1 = None" "e2 \<noteq> None"
    using that m1 m2
    by (auto simp: WithDatumCache_def Let_def opts cid p1 p2 defer_RemoveAll_def
        split: prod.splits)
  have case3: "WithDatumCache uuid h md cb w
      = defer_RemoveAll datumCachePath (defer_RemoveAll statsCachePath (out, w3))"
    if "e1 = None" "e2 = None"
    using that m1 m2 c
    by (simp add: WithDatumCache_def Let_def opts cid [symmetric] p1 [symmetric] p2 [symmetric])
  have suff: "e1 = None \<and> e2 = None"
    if s: "(\<forall>q. \<not> mkdir_denied w q) \<and> (\<forall>q. fs w q \<noteq> Some File)"
  proof -
    have "fs w1 q \<noteq> Some File" for q
      using ch1 [of q] s by (metis entry.distinct(1) option.inject)
    with s fr1 su1 su2 show ?thesis by simp
  qed
  have removed: "\<exists>r \<in> set (remove_denied ?W). prefix q r"
    if q: "prefix datumDir q \<or> prefix statsDir q"
      and st: "IsAbs ?root \<or> cwd ?W = cwd w" and ex: "fs ?W q \<noteq> None" for q
  proof (cases "e1 = None")
    case False
    then have W: "?W = w1" by (simp add: case1)
    have "fs w1 q = None"
    proof (rule ccontr)
      assume "fs w1 q \<noteq> None"
      with fresh q have d: "fs w1 q \<noteq> fs w q" by auto
      from ch1 [OF d] q apart have "q = datumDir"
        by (metis prefix_order.antisym prefix_order.trans)
      with ko1 [OF False] d show False by simp
    qed
    with ex W show ?thesis by simp
  next
    case e1: True
    show ?thesis
    proof (cases "e2 = None")
      case False
      then have W: "?W = snd (RemoveAll datumCachePath w2)"
        using e1 by (simp add: case2)
      have r1: "resolve w2 datumCachePath = datumDir"
        using res1 [of w2] fr2(1) by simp
      have n2: "fs w2 q = None" if "prefix statsDir q"
      proof (rule ccontr)
        assume "fs w2 q \<noteq> None"
        with none2_w1 [OF that] have d: "fs w2 q \<noteq> fs w1 q" by simp
        from ch2 [OF d] that have "q = statsDir"
          by (simp add: prefix_order.antisym)
        with ko2 [OF False] d show False by simp
      qed
      from q show ?thesis
      proof
        assume "prefix datumDir q"
        with RemoveAll_removes [OF pne(1,2), of w2 q] ex r1 W
        have "\<exists>r \<in> set (remove_denied w2). prefix q r" by simp
        then show ?thesis
          unfolding W by (simp add: RemoveAll_frame)
      next
        assume "prefix statsDir q"
        from n2 [OF this] RemoveAll_only_removes [of datumCachePath w2 q] ex W
        show ?thesis by simp
      qed
    next
      case e2: True
      let ?x = "snd (RemoveAll statsCachePath w3)"
      have W: "?W = snd (RemoveAll datumCachePath ?x)"
        using e1 e2 by (simp add: case3 snd_defer_RemoveAll)
      have cw: "cwd ?W = cwd w3" "cwd ?x = cwd w3"
        "remove_denied ?W = remove_denied w3" "remove_denied ?x = remove_denied w3"
        unfolding W by (simp_all add: RemoveAll_frame)
      from st cw have st3: "IsAbs ?root \<or> cwd w3 = cwd w" "IsAbs ?root \<or> cwd ?x = cwd w"
        by simp_all
      have r2: "resolve w3 statsCachePath = statsDir"
        using res2 [OF st3(1)] .
      have r1: "resolve ?x datumCachePath = datumDir"
        using res1 [OF st3(2)] .
      from q show ?thesis
      proof
        assume "prefix datumDir q"
        with RemoveAll_removes [OF pne(1,2), of ?x q] ex r1 W
        have "\<exists>r \<in> set (remove_denied ?x). prefix q r" by simp
        then show ?thesis
          by (simp add: cw)
      next
        assume s: "prefix statsDir q"
        from ex W RemoveAll_only_removes [of datumCachePath ?x q]
        have "fs ?x q \<noteq> None" by auto
        with RemoveAll_removes [OF pne(3,4), of w3 q] s r2
        have "\<exists>r \<in> set (remove_denied w3). prefix q r" by simp
        then show ?thesis
          by (simp add: cw)
      qed
    qed
  qed
  show ?thesis
  proof (intro conjI)
    show "e1 \<noteq> None \<longrightarrow> WithDatumCache uuid h md cb w = (Returns e1, w1)"
      using case1 by blast
    show "e1 = None \<longrightarrow> fs w1 datumDir = Some Dir"
      using ok1 by blast
    show "e1 = None \<and> e2 \<noteq> None \<longrightarrow>
        WithDatumCache uuid h md cb w = (Returns e2, snd (RemoveAll datumCachePath w2))"
      using case2 by blast
    show "e1 = None \<and> e2 = None \<longrightarrow>
        fs w2 datumDir = Some Dir \<and> fs w2 statsDir = Some Dir \<and>
        cwd w2 = cwd w \<and> uuid_next w2 = Suc (uuid_next w) \<and>
        (\<forall>l. prefix l (cwd w2) \<longrightarrow> stat w2 l = Some Dir) \<and>
        WithDatumCache uuid h md cb w
          = defer_RemoveAll datumCachePath (defer_RemoveAll statsCachePath (out, w3))"
      using case3 ok1 ok2 keep1 fr2(1,4) H2 by simp
    show "(\<forall>q. \<not> mkdir_denied w q) \<and> (\<forall>q. fs w q \<noteq> Some File) \<longrightarrow>
        e1 = None \<and> e2 = None"
      using suff by blast
    show "\<forall>q. (prefix datumDir q \<or> prefix statsDir q) \<and>
          (IsAbs (HashtreePath opts) \<or> cwd (snd (WithDatumCache uuid h md cb w)) = cwd w) \<and>
          fs (snd (WithDatumCache uuid h md cb w)) q \<noteq> None \<longrightarrow>
          (\<exists>r \<in> set (remove_denied (snd (WithDatumCache uuid h md cb w))). prefix q r)"
      using removed by blast
  qed
qed


section \<open>The per-run cache directories\<close>

text \<open>
  C1: a call of \<open>WithDatumCache\<close> takes the next run ID and joins it to
  \<open>HashtreePath\<close> under \<open>datum\<close> and under \<open>datumStats\<close>; the two paths lead to the
  locations \<open>datumDir\<close> and \<open>statsDir\<close>. Let the working directory exist, the run ID be
  a plain name, and nothing be at or under the two locations. If the first
  \<open>os.MkdirAll\<close> fails, its error is returned. If it succeeds, the datum directory is
  there; if the second one then fails, \<open>os.RemoveAll\<close> is applied to the datum path and
  the error of the second one is returned. If both succeed, both directories are there in
  the world the callback is run in, \<open>os.RemoveAll\<close> is applied to the stats path and
  then to the datum path in the world the callback leaves, and a panic or an error of
  the callback is the outcome of the call. Both succeed when no \<open>os.Mkdir\<close> is refused
  and no file is in the way. When the call is over, an entry is at or under a run
  directory only if it, or an entry below it, could not be unlinked, or if the storage
  root is relative and the working directory is no longer that of the call.
\<close>

theorem with_datum_cache_removes_run_directories:
  assumes "md_options h md = Some opts"
    and "cacheID = uuid (uuid_next w)" and "plain_name cacheID"
    and "datumCachePath = Join [HashtreePath opts, ''datum'', cacheID]"
    and "statsCachePath = Join [HashtreePath opts, ''datumStats'', cacheID]"
    and "datumDir = root_location w (HashtreePath opts) @ [''datum'', cacheID]"
    and "statsDir = root_location w (HashtreePath opts) @ [''datumStats'', cacheID]"
    and "\<forall>l. prefix l (cwd w) \<longrightarrow> stat w l = Some Dir"
    and "\<forall>q. prefix datumDir q \<or> prefix statsDir q \<longrightarrow> fs w q = None"
    and "MkdirAll datumCachePath (w\<lparr>uuid_next := Suc (uuid_next w)\<rparr>) = (e1, w1)"
    and "MkdirAll statsCachePath w1 = (e2, w2)"
    and "cb (NewMergeCache datumCachePath) (NewMergeCache statsCachePath) w2 = (out, w3)"
  shows "resolve w datumCachePath = datumDir \<and>
     resolve w statsCachePath = statsDir \<and>
     (e1 \<noteq> None \<longrightarrow> WithDatumCache uuid h md cb w = (Returns e1, w1)) \<and>
     (e1 = None \<longrightarrow> fs w1 datumDir = Some Dir) \<and>
     (e1 = None \<and> e2 \<noteq> None \<longrightarrow>
        WithDatumCache uuid h md cb w = (Returns e2, snd (RemoveAll datumCachePath w2))) \<and>
     (e1 = None \<and> e2 = None \<longrightarrow>
        fs w2 datumDir = Some Dir \<and> fs w2 statsDir = Some Dir \<and>
        cwd w2 = cwd w \<and> uuid_next w2 = Suc (uuid_next w) \<and>
        WithDatumCache uuid h md cb w
          = defer_RemoveAll datumCachePath (defer_RemoveAll statsCachePath (out, w3)) \<and>
        snd (WithDatumCache uuid h md cb w)
          = snd (RemoveAll datumCachePath (snd (RemoveAll statsCachePath w3))) \<and>
        (out = Panics \<longrightarrow> fst (WithDatumCache uuid h md cb w) = Panics) \<and>
        (\<forall>err. out = Returns (Some err) \<longrightarrow>
           fst (WithDatumCache uuid h md cb w) = Returns (Some err))) \<and>
     ((\<forall>q. \<not> mkdir_denied w q) \<and> (\<forall>q. fs w q \<noteq> Some File) \<longrightarrow> e1 = None \<and> e2 = None) \<and>
     (\<forall>q. (prefix datumDir q \<or> prefix statsDir q) \<and>
          (IsAbs (HashtreePath opts) \<or> cwd (snd (WithDatumCache uuid h md cb w)) = cwd w) \<and>
          fs (snd (WithDatumCache uuid h md cb w)) q \<noteq> None \<longrightarrow>
          (\<exists>r \<in> set (remove_denied (snd (WithDatumCache uuid h md cb w))). prefix q r))"
proof -
  note R = WithDatumCache_run
    [where uuid = uuid and h = h and md = md and cb = cb and w = w and opts = opts
       and cacheID = cacheID and datumCachePath = datumCachePath
       and statsCachePath = statsCachePath and datumDir = datumDir and statsDir = statsDir
       and ?e1.0 = e1 and ?e2.0 = e2 and ?w1.0 = w1 and ?w2.0 = w2 and out = out
       and ?w3.0 = w3, OF assms]
  have extra: "snd (WithDatumCache uuid h md cb w)
          = snd (RemoveAll datumCachePath (snd (RemoveAll statsCachePath w3))) \<and>
        (out = Panics \<longrightarrow> fst (WithDatumCache uuid h md cb w) = Panics) \<and>
        (\<forall>err. out = Returns (Some err) \<longrightarrow>
           fst (WithDatumCache uuid h md cb w) = Returns (Some err))"
    if "e1 = None" "e2 = None"
  proof -
    from R that have "WithDatumCache uuid h md cb w
          = defer_RemoveAll datumCachePath (defer_RemoveAll statsCachePath (out, w3))"
      by blast
    then show ?thesis
      by (simp add: snd_defer_RemoveAll fst_defer_RemoveAll)
  qed
  have locs: "resolve w datumCachePath = datumDir" "resolve w statsCachePath = statsDir"
    using assms(3) by (simp_all add: Join_resolve(1) plain_datum assms(4-7))
  from R extra locs show ?thesis by blast
qed

lemma Join_r_a:
  "Join [''r'', ''datum'', ''a''] = ''r/datum/a''"
  "Join [''r'', ''datumStats'', ''a''] = ''r/datumStats/a''"
  by (simp_all add: Join_def Clean_def clean_step_def)

text \<open>
  A datum directory that cannot be unlinked: the callback returns nil, the call returns
  the error of the removal, and the directory is still there.
\<close>

theorem with_datum_cache_failed_removal:
  "fst (WithDatumCache (\<lambda>n. replicate (Suc n) CHR ''a'')
      \<lparr>opts_mem = [\<lparr>NumWorkers = 1, NumShards = 1, EtcdPrefix = [], PipelineInfo = None,
                    HashtreePath = ''r''\<rparr>],
       drvs_mem = [\<lparr>ctx = Background, options = Some 0, etcdClient = None,
                    chunkCache = None, chunkStatsCache = None\<rparr>]\<rparr>
      (Some 0) (\<lambda>datumCache statsCache w. (Returns None, w))
      \<lparr>fs = (\<lambda>l. None)([''home''] \<mapsto> Dir), cwd = [''home''],
       mkdir_denied = (\<lambda>l. False),
       remove_denied = [[''home'', ''r'', ''datum'', ''a'']], uuid_next = 0\<rparr>)
     = Returns (Some (RemoveError [''home'', ''r'', ''datum'', ''a''])) \<and>
   fs (snd (WithDatumCache (\<lambda>n. replicate (Suc n) CHR ''a'')
      \<lparr>opts_mem = [\<lparr>NumWorkers = 1, NumShards = 1, EtcdPrefix = [], PipelineInfo = None,
                    HashtreePath = ''r''\<rparr>],
       drvs_mem = [\<lparr>ctx = Background, options = Some 0, etcdClient = None,
                    chunkCache = None, chunkStatsCache = None\<rparr>]\<rparr>
      (Some 0) (\<lambda>datumCache statsCache w. (Returns None, w))
      \<lparr>fs = (\<lambda>l. None)([''home''] \<mapsto> Dir), cwd = [''home''],
       mkdir_denied = (\<lambda>l. False),
       remove_denied = [[''home'', ''r'', ''datum'', ''a'']], uuid_next = 0\<rparr>))
      [''home'', ''r'', ''datum'', ''a''] = Some Dir"
  by (simp add: WithDatumCache_def md_options_def load_drv_def load_opts_def Join_r_a
      MkdirAll.simps parent_prefix_def os_Mkdir_def os_Stat_def stat_def resolve_def
      IsAbs_def walk_def defer_RemoveAll_def RemoveAll_def endsWithDot_def
      blocked_entries_def NewMergeCache_def Let_def)


theorem with_datum_cache_removes_run_directories_witness:
  "fst (WithDatumCache (\<lambda>n. replicate (Suc n) CHR ''a'')
      \<lparr>opts_mem = [\<lparr>NumWorkers = 1, NumShards = 1, EtcdPrefix = [], PipelineInfo = None,
                    HashtreePath = ''r''\<rparr>],
       drvs_mem = [\<lparr>ctx = Background, options = Some 0, etcdClient = None,
                    chunkCache = None, chunkStatsCache = None\<rparr>]\<rparr>
      (Some 0)
      (\<lambda>datumCache statsCache w.
          (if fs w [''home'', ''r'', ''datum'', ''a''] = Some Dir
              \<and> fs w [''home'', ''r'', ''datumStats'', ''a''] = Some Dir
           then Returns (Some (CallbackError ''seen'')) else Panics,
           w\<lparr>fs := (fs w)([''home'', ''r'', ''datum'', ''a'', ''f''] \<mapsto> File,
                          [''home'', ''log''] \<mapsto> File)\<rparr>))
      \<lparr>fs = (\<lambda>l. None)([''home''] \<mapsto> Dir), cwd = [''home''],
       mkdir_denied = (\<lambda>l. False), remove_denied = [], uuid_next = 0\<rparr>)
     = Returns (Some (CallbackError ''seen'')) \<and>
   fs (snd (WithDatumCache (\<lambda>n. replicate (Suc n) CHR ''a'')
      \<lparr>opts_mem = [\<lparr>NumWorkers = 1, NumShards = 1, EtcdPrefix = [], PipelineInfo = None,
                    HashtreePath = ''r''\<rparr>],
       drvs_mem = [\<lparr>ctx = Background, options = Some 0, etcdClient = None,
                    chunkCache = None, chunkStatsCache = None\<rparr>]\<rparr>
      (Some 0)
      (\<lambda>datumCache statsCache w.
          (if fs w [''home'', ''r'', ''datum'', ''a''] = Some Dir
              \<and> fs w [''home'', ''r'', ''datumStats'', ''a''] = Some Dir
           then Returns (Some (CallbackError ''seen'')) else Panics,
           w\<lparr>fs := (fs w)([''home'', ''r'', ''datum'', ''a'', ''f''] \<mapsto> File,
                          [''home'', ''log''] \<mapsto> File)\<rparr>))
      \<lparr>fs = (\<lambda>l. None)([''home''] \<mapsto> Dir), cwd = [''home''],
       mkdir_denied = (\<lambda>l. False), remove_denied = [], uuid_next = 0\<rparr>))
      [''home'', ''r'', ''datum'', ''a'', ''f''] = None \<and>
   fs (snd (WithDatumCache (\<lambda>n. replicate (Suc n) CHR ''a'')
      \<lparr>opts_mem = [\<lparr>NumWorkers = 1, NumShards = 1, EtcdPrefix = [], PipelineInfo = None,
                    HashtreePath = ''r''\<rparr>],
       drvs_mem = [\<lparr>ctx = Background, options = Some 0, etcdClient = None,
                    chunkCache = None, chunkStatsCache = None\<rparr>]\<rparr>
      (Some 0)
      (\<lambda>datumCache statsCache w.
          (if fs w [''home'', ''r'', ''datum'', ''a''] = Some Dir
              \<and> fs w [''home'', ''r'', ''datumStats'', ''a''] = Some Dir
           then Returns (Some (CallbackError ''seen'')) else Panics,
           w\<lparr>fs := (fs w)([''home'', ''r'', ''datum'', ''a'', ''f''] \<mapsto> File,
                          [''home'', ''log''] \<mapsto> File)\<rparr>))
      \<lparr>fs = (\<lambda>l. None)([''home''] \<mapsto> Dir), cwd = [''home''],
       mkdir_denied = (\<lambda>l. False), remove_denied = [], uuid_next = 0\<rparr>))
      [''home'', ''r'', ''datumStats'', ''a''] = None \<and>
   fs (snd (WithDatumCache (\<lambda>n. replicate (Suc n) CHR ''a'')
      \<lparr>opts_mem = [\<lparr>NumWorkers = 1, NumShards = 1, EtcdPrefix = [], PipelineInfo = None,
                    HashtreePath = ''r''\<rparr>],
       drvs_mem = [\<lparr>ctx = Background, options = Some 0, etcdClient = None,
                    chunkCache = None, chunkStatsCache = None\<rparr>]\<rparr>
      (Some 0)
      (\<lambda>datumCache statsCache w.
          (if fs w [''home'', ''r'', ''datum'', ''a''] = Some Dir
              \<and> fs w [''home'', ''r'', ''datumStats'', ''a''] = Some Dir
           then Returns (Some (CallbackError ''seen'')) else Panics,
           w\<lparr>fs := (fs w)([''home'', ''r'', ''datum'', ''a'', ''f''] \<mapsto> File,
                          [''home'', ''log''] \<mapsto> File)\<rparr>))
      \<lparr>fs = (\<lambda>l. None)([''home''] \<mapsto> Dir), cwd = [''home''],
       mkdir_denied = (\<lambda>l. False), remove_denied = [], uuid_next = 0\<rparr>))
      [''home'', ''log''] = Some File"
proof -
  let ?uuid = "\<lambda>n. replicate (Suc n) CHR ''a''"
  let ?opts = "\<lparr>NumWorkers = 1, NumShards = 1, EtcdPrefix = [], PipelineInfo = None,
                HashtreePath = ''r''\<rparr>"
  let ?h = "\<lparr>opts_mem = [\<lparr>NumWorkers = 1, NumShards = 1, EtcdPrefix = [], PipelineInfo = None,
                    HashtreePath = ''r''\<rparr>],
       drvs_mem = [\<lparr>ctx = Background, options = Some 0, etcdClient = None,
                    chunkCache = None, chunkStatsCache = None\<rparr>]\<rparr>"
  let ?w = "\<lparr>fs = (\<lambda>l. None)([''home''] \<mapsto> Dir), cwd = [''home''],
       mkdir_denied = (\<lambda>l. False), remove_denied = [], uuid_next = 0\<rparr>"
  let ?cb = "(\<lambda>datumCache statsCache w.
          (if fs w [''home'', ''r'', ''datum'', ''a''] = Some Dir
              \<and> fs w [''home'', ''r'', ''datumStats'', ''a''] = Some Dir
           then Returns (Some (CallbackError ''seen'')) else Panics,
           w\<lparr>fs := (fs w)([''home'', ''r'', ''datum'', ''a'', ''f''] \<mapsto> File,
                          [''home'', ''log''] \<mapsto> File)\<rparr>))"
  let ?m1 = "MkdirAll ''r/datum/a'' (?w\<lparr>uuid_next := Suc (uuid_next ?w)\<rparr>)"
  let ?m2 = "MkdirAll ''r/datumStats/a'' (snd ?m1)"
  let ?c = "?cb (NewMergeCache ''r/datum/a'') (NewMergeCache ''r/datumStats/a'') (snd ?m2)"
  have o: "md_options ?h (Some 0) = Some ?opts"
    by (simp add: md_options_def load_drv_def load_opts_def)
  have i: "''a'' = ?uuid (uuid_next ?w)" and p: "plain_name ''a''"
    by (simp_all add: plain_name_def)
  have j: "''r/datum/a'' = Join [HashtreePath ?opts, ''datum'', ''a'']"
    "''r/datumStats/a'' = Join [HashtreePath ?opts, ''datumStats'', ''a'']"
    by (simp_all add: Join_r_a)
  have l: "[''home'', ''r'', ''datum'', ''a'']
        = root_location ?w (HashtreePath ?opts) @ [''datum'', ''a'']"
    "[''home'', ''r'', ''datumStats'', ''a'']
        = root_location ?w (HashtreePath ?opts) @ [''datumStats'', ''a'']"
    by (simp_all add: root_location_def root_elems_def IsAbs_def clean_step_def walk_def)
  have H: "\<forall>l. prefix l (cwd ?w) \<longrightarrow> stat ?w l = Some Dir"
    by (auto simp: stat_def prefix_Cons)
  have f: "\<forall>q. prefix [''home'', ''r'', ''datum'', ''a''] q
        \<or> prefix [''home'', ''r'', ''datumStats'', ''a''] q \<longrightarrow> fs ?w q = None"
    by auto
  note T = with_datum_cache_removes_run_directories
    [where uuid = ?uuid and h = ?h and md = "Some 0" and cb = ?cb and w = ?w and opts = ?opts
       and cacheID = "''a''" and datumCachePath = "''r/datum/a''"
       and statsCachePath = "''r/datumStats/a''"
       and datumDir = "[''home'', ''r'', ''datum'', ''a'']"
       and statsDir = "[''home'', ''r'', ''datumStats'', ''a'']"
       and ?e1.0 = "fst ?m1" and ?w1.0 = "snd ?m1" and ?e2.0 = "fst ?m2" and ?w2.0 = "snd ?m2"
       and out = "fst ?c" and ?w3.0 = "snd ?c",
     OF o i p j l H f]
  have "?thesis"
    by (simp add: WithDatumCache_def md_options_def load_drv_def load_opts_def Join_r_a
      MkdirAll.simps parent_prefix_def os_Mkdir_def os_Stat_def stat_def resolve_def
      IsAbs_def walk_def defer_RemoveAll_def RemoveAll_def endsWithDot_def
      blocked_entries_def NewMergeCache_def Let_def)
  with T show ?thesis
    by simp
qed

section \<open>Layout of the cache directories\<close>













end
